theory Spec2Isabelle
  imports Complex_Main
begin

section \<open>Data model of the context retrieval pipeline (rag\_system.py)\<close>

text \<open>
  Python exceptions that the retrieval and ingestion code can meet. The external
  collaborators (embedding model, vector index, PDF reader) fail with an exception of
  their own; indexing a list out of range, subscripting \<open>None\<close> and calling
  \<open>.get\<close> on \<open>None\<close> are the interpreter's errors.
\<close>

datatype pyexn =
    EmbeddingFailure
  | IndexFailure
  | PyIndexError
  | PyTypeError
  | PyAttributeError
  | FileNotFoundError
  | ExtractionFailure

type_synonym vec = "real list"

type_synonym metadata = "string \<rightharpoonup> string"

text \<open>An item stored in the ChromaDB collection by \<open>collection.add\<close>.\<close>

record item =
  item_id :: string
  item_embedding :: vec
  item_document :: string
  item_metadata :: metadata

text \<open>
  The dictionary returned by \<open>collection.query\<close>. Each key holds a list with one
  entry per query embedding, or \<open>None\<close>; a metadata entry may itself be \<open>None\<close>.
\<close>

record query_result =
  documents :: "string list list option"
  metadatas :: "metadata option list list option"
  distances :: "real list list option"

text \<open>
  The \<open>chunk_info\<close> dictionary of \<open>retrieve_relevant_chunks\<close>. The keys read with
  \<open>.get(key, default)\<close> are options (\<open>None\<close>: the key is absent); \<open>distance\<close> is
  always present and holds a float or Python's \<open>None\<close>.
\<close>

record chunk_info =
  c_text :: string
  c_source :: "string option"
  c_chunk_id :: "string option"
  c_distance :: "real option"
  c_score :: "real option"

text \<open>Calls made to the external collaborators, in the order they are made.\<close>

datatype event =
    EvEncode "string list"
  | EvQuery vec int
  | EvCount
  | EvAdd "item list"
  | EvExtract
  | EvSplit string

text \<open>
  The external collaborators: the sentence-transformer model (\<open>encode\<close>), the ChromaDB
  collection (\<open>query\<close>, \<open>add\<close>), the PDF file and reader, and the text splitter.
\<close>

record env =
  encode :: "string list \<Rightarrow> pyexn + vec list"
  index_query :: "item list \<Rightarrow> vec \<Rightarrow> int \<Rightarrow> pyexn + query_result"
  index_add :: "item list \<Rightarrow> item list \<Rightarrow> pyexn + item list"
  pdf_path :: string
  pdf_exists :: bool
  pdf_pages :: "pyexn + string option list"
  split_text :: "string \<Rightarrow> string list"

text \<open>
  The mutable part of a \<open>RAGSystem\<close> object: the collection, the
  \<open>OrderedDict\<close> \<open>_query_cache\<close> (an association list, oldest entry first),
  \<open>_max_cache_size\<close>, and the trace of external calls made so far.
\<close>

record rag_state =
  collection :: "item list"
  query_cache :: "(string \<times> string) list"
  max_cache_size :: int
  calls :: "event list"

definition init_state :: "item list \<Rightarrow> rag_state" where
  "init_state coll =
     \<lparr>collection = coll, query_cache = [], max_cache_size = 128, calls = []\<rparr>"

section \<open>Computations that call collaborators and may raise\<close>

type_synonym 'a comp = "event list \<times> (pyexn + 'a)"

definition ret :: "'a \<Rightarrow> 'a comp" where
  "ret x = ([], Inr x)"

definition raise :: "pyexn \<Rightarrow> 'a comp" where
  "raise e = ([], Inl e)"

definition ext_call :: "event \<Rightarrow> pyexn + 'a \<Rightarrow> 'a comp" where
  "ext_call ev r = ([ev], r)"

definition bind :: "'a comp \<Rightarrow> ('a \<Rightarrow> 'b comp) \<Rightarrow> 'b comp" where
  "bind m f =
     (case m of
        (t, Inl e) \<Rightarrow> (t, Inl e)
      | (t, Inr x) \<Rightarrow> (case f x of (t', r) \<Rightarrow> (t @ t', r)))"

text \<open>Python's \<open>xs[i]\<close> for a non-negative index.\<close>

definition py_nth :: "'a list \<Rightarrow> nat \<Rightarrow> 'a comp" where
  "py_nth xs i = (if i < length xs then ret (xs ! i) else raise PyIndexError)"

text \<open>Subscripting a value that may be \<open>None\<close>.\<close>

definition py_subscript :: "'a list option \<Rightarrow> nat \<Rightarrow> 'a comp" where
  "py_subscript v i = (case v of None \<Rightarrow> raise PyTypeError | Some xs \<Rightarrow> py_nth xs i)"

fun map_comp :: "('a \<Rightarrow> 'b comp) \<Rightarrow> 'a list \<Rightarrow> 'b list comp" where
  "map_comp f [] = ret []"
| "map_comp f (x # xs) = bind (f x) (\<lambda>y. bind (map_comp f xs) (\<lambda>ys. ret (y # ys)))"

section \<open>Strings\<close>

function string_of_nat :: "nat \<Rightarrow> string" where
  "string_of_nat n =
     (if n < 10 then [''0123456789'' ! n]
      else string_of_nat (n div 10) @ [''0123456789'' ! (n mod 10)])"
  by pat_completeness auto
termination
  by (relation "measure id") auto

declare string_of_nat.simps [simp del]

section \<open>The hybrid retriever\<close>

text \<open>
  The slices \<open>xs[s : min(s + n, len(xs))]\<close> for \<open>s\<close> in \<open>range(0, len(xs), n)\<close>.
\<close>

function batches :: "nat \<Rightarrow> 'a list \<Rightarrow> 'a list list" where
  "batches n xs =
     (if n = 0 \<or> xs = [] then [] else take n xs # batches n (drop n xs))"
  by pat_completeness auto
termination
  by (relation "measure (\<lambda>(n, xs). length xs)") auto

declare batches.simps [simp del]

text \<open>The local function \<open>cosine\<close> of \<open>retrieve_relevant_chunks\<close>.\<close>

definition cosine :: "vec \<Rightarrow> vec \<Rightarrow> real" where
  "cosine a b =
     (let dot = sum_list (map (\<lambda>(x, y). x * y) (zip a b));
          na = sqrt (sum_list (map (\<lambda>x. x * x) a));
          nb = sqrt (sum_list (map (\<lambda>y. y * y) b))
      in if na = 0 \<or> nb = 0 then 0 else dot / (na * nb))"

text \<open>
  \<open>list.sort(key=f, reverse=True)\<close>: CPython reverses the list, sorts it with its
  stable ascending sort, and reverses the result.
\<close>

definition sort_reverse :: "('a \<Rightarrow> real) \<Rightarrow> 'a list \<Rightarrow> 'a list" where
  "sort_reverse f xs = rev (sort_key f (rev xs))"

definition score_key :: "chunk_info \<Rightarrow> real" where
  "score_key c = (case c_score c of None \<Rightarrow> 0 | Some s \<Rightarrow> s)"

text \<open>One iteration of the loop that builds \<open>chunk_info\<close> (lines 181 to 188).\<close>

definition make_chunk_info :: "query_result \<Rightarrow> nat \<Rightarrow> string \<Rightarrow> chunk_info comp" where
  "make_chunk_info results i doc =
     bind (py_subscript (metadatas results) 0) (\<lambda>metas0.
     bind (py_nth metas0 i) (\<lambda>meta.
     bind (case meta of None \<Rightarrow> raise PyAttributeError | Some m \<Rightarrow> ret m) (\<lambda>m.
     bind (case distances results of
             None \<Rightarrow> ret None
           | Some [] \<Rightarrow> ret None
           | Some (d0 # ds) \<Rightarrow> bind (py_nth d0 i) (\<lambda>d. ret (Some d))) (\<lambda>dist.
     ret \<lparr>c_text = doc,
          c_source = Some (case m ''source'' of None \<Rightarrow> ''Unknown'' | Some s \<Rightarrow> s),
          c_chunk_id = Some (case m ''chunk_id'' of None \<Rightarrow> ''Unknown'' | Some s \<Rightarrow> s),
          c_distance = dist,
          c_score = None\<rparr>))))"

definition format_results :: "query_result \<Rightarrow> chunk_info list comp" where
  "format_results results =
     (case documents results of
        None \<Rightarrow> ret []
      | Some [] \<Rightarrow> ret []
      | Some (docs0 # rest) \<Rightarrow>
          if length docs0 > 0
          then map_comp (\<lambda>(i, doc). make_chunk_info results i doc)
                 (zip [0..<length docs0] docs0)
          else ret [])"

text \<open>
  The loop \<open>for i, sc in enumerate(scores): retrieved_chunks[i]["score"] = sc\<close>;
  \<open>scores\<close> has one entry per chunk.
\<close>

definition attach_scores :: "chunk_info list \<Rightarrow> real list \<Rightarrow> chunk_info list" where
  "attach_scores chunks scores =
     map (\<lambda>(c, sc). c\<lparr>c_score := Some sc\<rparr>) (zip chunks scores)"

text \<open>The secondary rerank (lines 191 to 214).\<close>

definition rerank :: "env \<Rightarrow> vec \<Rightarrow> chunk_info list \<Rightarrow> chunk_info list comp" where
  "rerank ev query_embedding retrieved_chunks =
     (if retrieved_chunks = [] then ret []
      else
        bind (map_comp (\<lambda>sub. ext_call (EvEncode sub) (encode ev sub))
                (batches 64 (map c_text retrieved_chunks))) (\<lambda>sub_embs.
        bind (map_comp (\<lambda>i. bind (py_nth (concat sub_embs) i)
                                (\<lambda>v. ret (cosine v query_embedding)))
                [0..<length retrieved_chunks]) (\<lambda>scores.
        ret (sort_reverse score_key (attach_scores retrieved_chunks scores)))))"

text \<open>The body of the \<open>try\<close> block of \<open>retrieve_relevant_chunks\<close>.\<close>

definition retrieve_body :: "env \<Rightarrow> item list \<Rightarrow> string \<Rightarrow> int \<Rightarrow> chunk_info list comp" where
  "retrieve_body ev coll query n_results =
     bind (ext_call (EvEncode [query]) (encode ev [query])) (\<lambda>embs.
     bind (py_nth embs 0) (\<lambda>query_embedding.
     bind (ext_call (EvQuery query_embedding n_results)
             (index_query ev coll query_embedding n_results)) (\<lambda>results.
     bind (format_results results) (\<lambda>retrieved_chunks.
     rerank ev query_embedding retrieved_chunks))))"

text \<open>\<open>retrieve_relevant_chunks\<close>: \<open>except Exception\<close> returns the empty list.\<close>

definition retrieve_relevant_chunks ::
  "env \<Rightarrow> rag_state \<Rightarrow> string \<Rightarrow> int \<Rightarrow> chunk_info list \<times> rag_state" where
  "retrieve_relevant_chunks ev st query n_results =
     (case retrieve_body ev (collection st) query n_results of
        (t, Inl e) \<Rightarrow> ([], st\<lparr>calls := calls st @ t\<rparr>)
      | (t, Inr chunks) \<Rightarrow> (chunks, st\<lparr>calls := calls st @ t\<rparr>))"

section \<open>Formatting and the context cache\<close>

definition no_context :: string where
  "no_context = ''No relevant information found in reference materials.''"

definition format_chunk :: "string \<Rightarrow> nat \<times> chunk_info \<Rightarrow> string" where
  "format_chunk context ic =
     (case ic of (i, chunk) \<Rightarrow>
        context
        @ ''[Source '' @ string_of_nat i @ '': ''
        @ (case c_source chunk of None \<Rightarrow> ''Nephrology Reference'' | Some s \<Rightarrow> s)
        @ '']'' @ [CHR 0x0A]
        @ c_text chunk @ [CHR 0x0A, CHR 0x0A])"

definition format_context_for_llm :: "chunk_info list \<Rightarrow> string" where
  "format_context_for_llm chunks =
     (if chunks = [] then no_context
      else foldl format_chunk
             (''Reference Material Citations:'' @ [CHR 0x0A, CHR 0x0A])
             (zip [1..<Suc (length chunks)] chunks))"

text \<open>The \<open>OrderedDict\<close> operations the cache uses.\<close>

definition od_get :: "('k \<times> 'v) list \<Rightarrow> 'k \<Rightarrow> 'v option" where
  "od_get d k = map_of d k"

definition od_move_to_end :: "'k \<Rightarrow> ('k \<times> 'v) list \<Rightarrow> ('k \<times> 'v) list" where
  "od_move_to_end k d =
     (case map_of d k of
        None \<Rightarrow> d
      | Some v \<Rightarrow> filter (\<lambda>kv. fst kv \<noteq> k) d @ [(k, v)])"

definition od_setitem :: "'k \<Rightarrow> 'v \<Rightarrow> ('k \<times> 'v) list \<Rightarrow> ('k \<times> 'v) list" where
  "od_setitem k v d =
     (if k \<in> fst ` set d then map (\<lambda>kv. if fst kv = k then (k, v) else kv) d
      else d @ [(k, v)])"

definition od_popitem_first :: "('k \<times> 'v) list \<Rightarrow> ('k \<times> 'v) list" where
  "od_popitem_first d = tl d"

definition get_relevant_context ::
  "env \<Rightarrow> rag_state \<Rightarrow> string \<Rightarrow> int \<Rightarrow> string \<times> rag_state" where
  "get_relevant_context ev st query n_results =
     (case od_get (query_cache st) query of
        Some cached \<Rightarrow>
          (cached, st\<lparr>query_cache := od_move_to_end query (query_cache st)\<rparr>)
      | None \<Rightarrow>
          (case retrieve_relevant_chunks ev st query n_results of
             (chunks, st1) \<Rightarrow>
               let formatted = format_context_for_llm chunks;
                   cache1 = od_setitem query formatted (query_cache st1);
                   cache2 = (if int (length cache1) > max_cache_size st1
                             then od_popitem_first cache1 else cache1)
               in (formatted, st1\<lparr>query_cache := cache2\<rparr>)))"

fun run_queries :: "env \<Rightarrow> rag_state \<Rightarrow> (string \<times> int) list \<Rightarrow> rag_state" where
  "run_queries ev st [] = st"
| "run_queries ev st (qn # qs) =
     run_queries ev (snd (get_relevant_context ev st (fst qn) (snd qn))) qs"

section \<open>Fixtures for concrete evaluation\<close>

text \<open>An environment in which every collaborator is unavailable.\<close>

definition offline_env :: env where
  "offline_env =
     \<lparr>encode = (\<lambda>texts. Inl EmbeddingFailure),
      index_query = (\<lambda>coll v n. Inl IndexFailure),
      index_add = (\<lambda>coll items. Inl IndexFailure),
      pdf_path = ''data/comprehensive-clinical-nephrology.pdf'',
      pdf_exists = False,
      pdf_pages = Inl FileNotFoundError,
      split_text = (\<lambda>t. [])\<rparr>"

text \<open>\<open>k\<close> pairwise different queries, each asked with \<open>n_results = 5\<close>.\<close>

definition probe_queries :: "nat \<Rightarrow> (string \<times> int) list" where
  "probe_queries k = map (\<lambda>i. (replicate i CHR ''q'', 5)) [0..<k]"

text \<open>
  A small working installation: the embedding model maps every text to a unit vector,
  the index answers every query with three documents, the second of which has an empty
  metadata dictionary and the third no \<open>source\<close>, and supplies no distances.
\<close>

definition demo_embed :: "string \<Rightarrow> vec" where
  "demo_embed t = (if t = ''beta'' \<or> t = ''q'' then [1, 0] else [0, 1])"

definition demo_results :: query_result where
  "demo_results =
     \<lparr>documents = Some [[''alpha'', ''beta'', ''gamma'']],
      metadatas = Some [[Some [''source'' \<mapsto> ''neph.pdf'', ''chunk_id'' \<mapsto> ''0''],
                         Some Map.empty,
                         Some [''chunk_id'' \<mapsto> ''2'']]],
      distances = None\<rparr>"

definition demo_env :: env where
  "demo_env =
     \<lparr>encode = (\<lambda>texts. Inr (map demo_embed texts)),
      index_query = (\<lambda>coll v n. Inr demo_results),
      index_add = (\<lambda>coll items. Inr (coll @ items)),
      pdf_path = ''data/comprehensive-clinical-nephrology.pdf'',
      pdf_exists = True,
      pdf_pages = Inr [Some ''Kidney'', None, Some ''Nephron''],
      split_text = (\<lambda>t. [t])\<rparr>"

definition demo_candidates :: "chunk_info list" where
  "demo_candidates =
     [\<lparr>c_text = ''alpha'', c_source = Some ''neph.pdf'', c_chunk_id = Some ''0'',
       c_distance = None, c_score = None\<rparr>,
      \<lparr>c_text = ''beta'', c_source = Some ''Unknown'', c_chunk_id = Some ''Unknown'',
       c_distance = None, c_score = None\<rparr>,
      \<lparr>c_text = ''gamma'', c_source = Some ''Unknown'', c_chunk_id = Some ''2'',
       c_distance = None, c_score = None\<rparr>]"

definition demo_chunks :: "chunk_info list" where
  "demo_chunks =
     [\<lparr>c_text = ''beta'', c_source = Some ''Unknown'', c_chunk_id = Some ''Unknown'',
       c_distance = None, c_score = Some 1\<rparr>,
      \<lparr>c_text = ''alpha'', c_source = Some ''neph.pdf'', c_chunk_id = Some ''0'',
       c_distance = None, c_score = Some 0\<rparr>,
      \<lparr>c_text = ''gamma'', c_source = Some ''Unknown'', c_chunk_id = Some ''2'',
       c_distance = None, c_score = Some 0\<rparr>]"

definition two_entry_state :: rag_state where
  "two_entry_state =
     \<lparr>collection = [], query_cache = [(''ckd'', ''A''), (''aki'', ''B'')],
      max_cache_size = 128, calls = []\<rparr>"

text \<open>Python's \<open>sub in s\<close> on strings.\<close>

fun is_prefix :: "'a list \<Rightarrow> 'a list \<Rightarrow> bool" where
  "is_prefix [] ys = True"
| "is_prefix (x # xs) [] = False"
| "is_prefix (x # xs) (y # ys) = (x = y \<and> is_prefix xs ys)"

fun contains :: "'a list \<Rightarrow> 'a list \<Rightarrow> bool" where
  "contains [] sub = is_prefix sub []"
| "contains (c # s) sub = (is_prefix sub (c # s) \<or> contains s sub)"

text \<open>What one iteration of the formatting loop appends to the context.\<close>

definition rendered_chunk :: "nat \<Rightarrow> chunk_info \<Rightarrow> string" where
  "rendered_chunk i chunk =
     ''[Source '' @ string_of_nat i @ '': ''
     @ (case c_source chunk of None \<Rightarrow> ''Nephrology Reference'' | Some s \<Rightarrow> s)
     @ '']'' @ [CHR 0x0A]
     @ c_text chunk @ [CHR 0x0A, CHR 0x0A]"

definition cited_chunk :: chunk_info where
  "cited_chunk =
     \<lparr>c_text = ''Kidney'', c_source = Some ''neph.pdf'', c_chunk_id = Some ''7'',
      c_distance = None, c_score = Some 1\<rparr>"

text \<open>
  The demonstration index when it also supplies distances: the nearest document by
  approximate distance is not the one with the highest exact score.
\<close>

definition ranked_results :: query_result where
  "ranked_results =
     \<lparr>documents = Some [[''alpha'', ''beta'', ''gamma'']],
      metadatas = Some [[Some [''source'' \<mapsto> ''neph.pdf'', ''chunk_id'' \<mapsto> ''0''],
                         Some Map.empty,
                         Some [''chunk_id'' \<mapsto> ''2'']]],
      distances = Some [[1 / 4, 1 / 2, 3 / 4]]\<rparr>"

definition ranked_env :: env where
  "ranked_env = demo_env\<lparr>index_query := (\<lambda>coll v n. Inr ranked_results)\<rparr>"

text \<open>An index answer in which the second document has no metadata at all.\<close>

definition none_meta_results :: query_result where
  "none_meta_results =
     \<lparr>documents = Some [[''alpha'', ''beta'']],
      metadatas = Some [[Some Map.empty, None]],
      distances = None\<rparr>"

definition none_meta_env :: env where
  "none_meta_env = demo_env\<lparr>index_query := (\<lambda>coll v n. Inr none_meta_results)\<rparr>"

definition ranked_chunks :: "chunk_info list" where
  "ranked_chunks =
     [\<lparr>c_text = ''beta'', c_source = Some ''Unknown'', c_chunk_id = Some ''Unknown'',
       c_distance = Some (1 / 2), c_score = Some 1\<rparr>,
      \<lparr>c_text = ''alpha'', c_source = Some ''neph.pdf'', c_chunk_id = Some ''0'',
       c_distance = Some (1 / 4), c_score = Some 0\<rparr>,
      \<lparr>c_text = ''gamma'', c_source = Some ''Unknown'', c_chunk_id = Some ''2'',
       c_distance = Some (3 / 4), c_score = Some 0\<rparr>]"

section \<open>Ingestion of the reference PDF\<close>

text \<open>
  The value a Python call returns, as far as ingestion is concerned: \<open>None\<close> or an
  integer.
\<close>

datatype pyval = PyNone | PyInt int

text \<open>The dictionaries built by \<open>chunk_text\<close>.\<close>

record chunk_doc =
  d_text :: string
  d_chunk_id :: nat
  d_source :: string

text \<open>\<open>os.path.basename\<close> on a POSIX path: what follows the last slash.\<close>

definition basename :: "string \<Rightarrow> string" where
  "basename p = rev (takeWhile (\<lambda>c. c \<noteq> CHR ''/'') (rev p))"

text \<open>\<open>sep.join(xs)\<close>.\<close>

fun join :: "string \<Rightarrow> string list \<Rightarrow> string" where
  "join sep [] = []"
| "join sep [x] = x"
| "join sep (x # y # ys) = x @ sep @ join sep (y # ys)"

text \<open>
  The loop over the pages in \<open>extract_text_from_pdf\<close>: pages are numbered from 1,
  and a page whose text is \<open>None\<close> or empty contributes nothing.
\<close>

definition page_texts :: "string option list \<Rightarrow> string list" where
  "page_texts pages =
     concat (map (\<lambda>(page_num, text).
                    case text of
                      None \<Rightarrow> []
                    | Some t \<Rightarrow>
                        if t = [] then []
                        else [''--- Page '' @ string_of_nat page_num @ '' ---'' @ [CHR 0x0A] @ t])
               (zip [1..<Suc (length pages)] pages))"

definition extract_text_from_pdf :: "env \<Rightarrow> string comp" where
  "extract_text_from_pdf ev =
     (if \<not> pdf_exists ev then raise FileNotFoundError
      else bind (ext_call EvExtract (pdf_pages ev)) (\<lambda>pages.
           ret (join [CHR 0x0A, CHR 0x0A] (page_texts pages))))"

definition chunk_text :: "env \<Rightarrow> string \<Rightarrow> chunk_doc list comp" where
  "chunk_text ev txt =
     bind (ext_call (EvSplit txt) (Inr (split_text ev txt))) (\<lambda>chunks.
     ret (map (\<lambda>(i, chunk). \<lparr>d_text = chunk, d_chunk_id = i,
                               d_source = basename (pdf_path ev)\<rparr>)
            (zip [0..<length chunks] chunks)))"

text \<open>
  The arguments of one \<open>collection.add\<close> call: the ids, documents and metadata of a
  batch of chunks with the embeddings computed for it.
\<close>

definition chunk_items :: "chunk_doc list \<Rightarrow> vec list \<Rightarrow> item list" where
  "chunk_items chunks embs =
     map (\<lambda>(c, e). \<lparr>item_id = ''chunk_'' @ string_of_nat (d_chunk_id c),
                      item_embedding = e,
                      item_document = d_text c,
                      item_metadata = [''source'' \<mapsto> d_source c,
                                       ''chunk_id'' \<mapsto> string_of_nat (d_chunk_id c)]\<rparr>)
       (zip chunks embs)"

text \<open>
  The loop of \<open>process_pdf\<close> over the batches of 1000 chunks (lines 136 to 162): the
  texts of a batch are embedded in sub-batches of 64 and the batch is added to the
  collection. Nothing is caught here, so the first failing call ends the loop, and the
  batches added before it stay in the collection. ChromaDB rejects an \<open>add\<close> whose
  lists differ in length.
\<close>

fun add_batches :: "env \<Rightarrow> rag_state \<Rightarrow> chunk_doc list list \<Rightarrow> (pyexn + unit) \<times> rag_state" where
  "add_batches ev st [] = (Inr (), st)"
| "add_batches ev st (b # bs) =
     (case map_comp (\<lambda>sub. ext_call (EvEncode sub) (encode ev sub))
             (batches 64 (map d_text b)) of
        (t, Inl e) \<Rightarrow> (Inl e, st\<lparr>calls := calls st @ t\<rparr>)
      | (t, Inr sub_embs) \<Rightarrow>
          let batch_embeddings = concat sub_embs;
              items = chunk_items b batch_embeddings;
              st1 = st\<lparr>calls := calls st @ t @ [EvAdd items]\<rparr>
          in if length batch_embeddings \<noteq> length b then (Inl IndexFailure, st1)
             else (case index_add ev (collection st) items of
                     Inl e \<Rightarrow> (Inl e, st1)
                   | Inr coll \<Rightarrow> add_batches ev (st1\<lparr>collection := coll\<rparr>) bs))"

text \<open>
  \<open>process_pdf\<close>. The function has no \<open>return\<close> with a value: it returns
  \<open>None\<close> both when it skips a populated collection and when it has added every
  chunk.
\<close>

definition process_pdf :: "env \<Rightarrow> rag_state \<Rightarrow> (pyexn + pyval) \<times> rag_state" where
  "process_pdf ev st =
     (let st0 = st\<lparr>calls := calls st @ [EvCount]\<rparr> in
      if int (length (collection st)) > 0 then (Inr PyNone, st0)
      else
        (case bind (extract_text_from_pdf ev) (chunk_text ev) of
           (t, Inl e) \<Rightarrow> (Inl e, st0\<lparr>calls := calls st0 @ t\<rparr>)
         | (t, Inr chunks) \<Rightarrow>
             (case add_batches ev (st0\<lparr>calls := calls st0 @ t\<rparr>) (batches 1000 chunks) of
                (Inl e, st1) \<Rightarrow> (Inl e, st1)
              | (Inr u, st1) \<Rightarrow> (Inr PyNone, st1))))"

section \<open>Fixtures for ingestion\<close>

text \<open>The text, the chunk and the stored item of the demonstration PDF.\<close>

definition demo_text :: string where
  "demo_text = ''--- Page 1 ---'' @ [CHR 0x0A] @ ''Kidney'' @ [CHR 0x0A, CHR 0x0A]
               @ ''--- Page 3 ---'' @ [CHR 0x0A] @ ''Nephron''"

definition demo_item :: item where
  "demo_item =
     \<lparr>item_id = ''chunk_0'', item_embedding = [0, 1], item_document = demo_text,
      item_metadata = [''source'' \<mapsto> ''comprehensive-clinical-nephrology.pdf'',
                       ''chunk_id'' \<mapsto> ''0'']\<rparr>"

text \<open>The state after the demonstration PDF has been ingested into an empty collection.\<close>

definition ingested_state :: rag_state where
  "ingested_state =
     \<lparr>collection = [demo_item], query_cache = [], max_cache_size = 128,
      calls = [EvCount, EvExtract, EvSplit demo_text, EvEncode [demo_text],
               EvAdd [demo_item]]\<rparr>"

section \<open>Basic facts about computations and the cache\<close>

lemma bind_ret [simp]: "bind (ret x) f = f x"
  by (simp add: bind_def ret_def split: prod.splits)

lemma bind_raise [simp]: "bind (raise e) f = raise e"
  by (simp add: bind_def raise_def)

lemma bind_Inl [simp]: "bind (t, Inl e) f = (t, Inl e)"
  by (simp add: bind_def)

lemma bind_Inr: "bind (t, Inr x) f = (t @ fst (f x), snd (f x))"
  by (simp add: bind_def split: prod.splits)

lemma snd_bind_Inl: "snd m = Inl e \<Longrightarrow> snd (bind m f) = Inl e"
  by (cases m) (simp add: bind_def)

lemma retrieve_relevant_chunks_eq:
  "retrieve_relevant_chunks ev st query n =
     ((case snd (retrieve_body ev (collection st) query n) of Inl e \<Rightarrow> [] | Inr cs \<Rightarrow> cs),
      st\<lparr>calls := calls st @ fst (retrieve_body ev (collection st) query n)\<rparr>)"
proof (cases "retrieve_body ev (collection st) query n")
  case (Pair t r)
  then show ?thesis
    by (cases r) (simp_all add: retrieve_relevant_chunks_def)
qed


lemma od_get_None: "od_get d k = None \<longleftrightarrow> k \<notin> fst ` set d"
  by (simp add: od_get_def map_of_eq_None_iff)

lemma od_get_Some: "distinct (map fst d) \<Longrightarrow> (k, v) \<in> set d \<Longrightarrow> od_get d k = Some v"
  by (simp add: od_get_def)

lemma context_hit:
  assumes "od_get (query_cache st) query = Some v"
  shows "get_relevant_context ev st query n =
           (v, st\<lparr>query_cache := filter (\<lambda>kv. fst kv \<noteq> query) (query_cache st) @ [(query, v)]\<rparr>)"
  using assms by (simp add: get_relevant_context_def od_move_to_end_def od_get_def)

lemma context_miss:
  assumes "query \<notin> fst ` set (query_cache st)"
  shows "get_relevant_context ev st query n =
           (let chunks = fst (retrieve_relevant_chunks ev st query n);
                formatted = format_context_for_llm chunks;
                cache1 = query_cache st @ [(query, formatted)]
            in (formatted,
                st\<lparr>calls := calls st @ fst (retrieve_body ev (collection st) query n),
                   query_cache := (if int (length cache1) > max_cache_size st
                                   then tl cache1 else cache1)\<rparr>))"
proof -
  have "od_get (query_cache st) query = None"
    using assms by (simp add: od_get_None)
  then show ?thesis
    using assms
    by (simp add: get_relevant_context_def od_setitem_def od_popitem_first_def Let_def
          retrieve_relevant_chunks_eq)
qed

section \<open>The cache holds the most recently used queries\<close>

lemma filter_neq_id: "q \<notin> set r \<Longrightarrow> filter (\<lambda>k. k \<noteq> q) r = r"
  by (induction r) auto

lemma length_filter_neq_distinct:
  "distinct r \<Longrightarrow> q \<in> set r \<Longrightarrow> Suc (length (filter (\<lambda>k. k \<noteq> q) r)) = length r"
  by (induction r) (auto simp: filter_neq_id)

lemma drop_Suc_length_append: "drop (Suc (length A)) (A @ Y) = tl Y"
  by (induction A) (simp_all add: drop_Suc)

lemma lru_window:
  assumes "distinct r"
  shows "drop (length (filter (\<lambda>k. k \<noteq> q) r @ [q]) - m) (filter (\<lambda>k. k \<noteq> q) r @ [q]) =
          (let K = drop (length r - m) r
           in if q \<in> set K then filter (\<lambda>k. k \<noteq> q) K @ [q]
              else if length K + 1 > m then tl (K @ [q]) else K @ [q])"
proof -
  define A where "A = take (length r - m) r"
  define K where "K = drop (length r - m) r"
  have r: "r = A @ K" by (simp add: A_def K_def)
  have lenA: "length A = length r - m" by (simp add: A_def)
  have dA: "distinct A" and dK: "distinct K" and disj: "set A \<inter> set K = {}"
    using assms unfolding r by auto
  consider (inK) "q \<in> set K" | (inA) "q \<in> set A" "q \<notin> set K" | (new) "q \<notin> set r"
    using r by auto
  then have "drop (length (filter (\<lambda>k. k \<noteq> q) r @ [q]) - m) (filter (\<lambda>k. k \<noteq> q) r @ [q]) =
          (if q \<in> set K then filter (\<lambda>k. k \<noteq> q) K @ [q]
              else if length K + 1 > m then tl (K @ [q]) else K @ [q])"
  proof cases
    case inK
    then have qA: "q \<notin> set A" using disj by auto
    have lK: "Suc (length (filter (\<lambda>k. k \<noteq> q) K)) = length K"
      using dK inK by (rule length_filter_neq_distinct)
    have "length (filter (\<lambda>k. k \<noteq> q) r @ [q]) = length r"
      using lK by (simp add: r filter_neq_id [OF qA])
    then have "length (filter (\<lambda>k. k \<noteq> q) r @ [q]) - m = length A"
      by (simp add: lenA)
    then show ?thesis
      using inK by (simp add: r filter_neq_id [OF qA])
  next
    case inA
    have lA: "Suc (length (filter (\<lambda>k. k \<noteq> q) A)) = length A"
      using dA inA(1) by (rule length_filter_neq_distinct)
    then have "length A > 0" by linarith
    then have big: "length r > m" using lenA by linarith
    then have lK: "length K = m" by (simp add: K_def)
    have "length (filter (\<lambda>k. k \<noteq> q) r @ [q]) = length r"
      using lA by (simp add: r filter_neq_id [OF inA(2)])
    then have "length (filter (\<lambda>k. k \<noteq> q) r @ [q]) - m = Suc (length (filter (\<lambda>k. k \<noteq> q) A))"
      using lA lenA by simp
    then show ?thesis
      using inA lK
      by (simp only: r filter_append filter_neq_id [OF inA(2)] append_assoc
            drop_Suc_length_append) simp
  next
    case new
    then have qK: "q \<notin> set K" using r by auto
    show ?thesis
    proof (cases "length r < m")
      case True
      then have "K = r" by (simp add: K_def)
      then show ?thesis using True qK new by (simp add: filter_neq_id)
    next
      case False
      then have lK: "length K = m" by (simp add: K_def)
      have e: "filter (\<lambda>k. k \<noteq> q) r @ [q] = A @ (K @ [q])"
        using filter_neq_id [OF new] r by simp
      have l: "length (A @ (K @ [q])) - m = Suc (length A)"
        using lK by simp
      show ?thesis
        unfolding e l drop_Suc_length_append using qK lK by simp
    qed
  qed
  then show ?thesis by (simp add: K_def Let_def)
qed

lemma remdups_snoc: "remdups (xs @ [q]) = filter (\<lambda>k. k \<noteq> q) (remdups xs) @ [q]"
  by (induction xs) auto

lemma keys_step:
  "map fst (query_cache (snd (get_relevant_context ev st q n))) =
     (let K = map fst (query_cache st)
      in if q \<in> set K then filter (\<lambda>k. k \<noteq> q) K @ [q]
         else if int (length K + 1) > max_cache_size st then tl (K @ [q]) else K @ [q])"
proof (cases "od_get (query_cache st) q")
  case None
  then have "q \<notin> fst ` set (query_cache st)" by (simp add: od_get_None)
  then show ?thesis
    by (simp add: context_miss Let_def map_tl)
next
  case (Some v)
  then have "q \<in> fst ` set (query_cache st)"
    using od_get_None [of "query_cache st" q] by auto
  then show ?thesis
    by (simp add: context_hit [OF Some] filter_map o_def)
qed

lemma max_cache_size_step [simp]:
  "max_cache_size (snd (get_relevant_context ev st q n)) = max_cache_size st"
  by (cases "od_get (query_cache st) q")
     (simp_all add: context_miss context_hit od_get_None Let_def)

lemma collection_step [simp]:
  "collection (snd (get_relevant_context ev st q n)) = collection st"
  by (cases "od_get (query_cache st) q")
     (simp_all add: context_miss context_hit od_get_None Let_def)

lemma run_queries_snoc:
  "run_queries ev st (qs @ [qn]) =
     snd (get_relevant_context ev (run_queries ev st qs) (fst qn) (snd qn))"
  by (induction qs arbitrary: st) simp_all

lemma max_cache_size_run [simp]:
  "max_cache_size (run_queries ev st qs) = max_cache_size st"
  by (induction qs arbitrary: st) simp_all

lemma keys_run:
  assumes "query_cache st = []" and "max_cache_size st = int m"
  shows "map fst (query_cache (run_queries ev st qs)) =
           drop (length (remdups (map fst qs)) - m) (remdups (map fst qs))"
proof (induction qs rule: rev_induct)
  case Nil
  then show ?case using assms by simp
next
  case (snoc qn qs)
  have "distinct (remdups (map fst qs))" by simp
  from lru_window [OF this, of "fst qn" m] show ?case
    using assms(2)
    by (simp add: run_queries_snoc keys_step snoc.IH remdups_snoc Let_def)
qed

lemma filter_key_remove1:
  "distinct (map fst d) \<Longrightarrow> (k, v) \<in> set d \<Longrightarrow>
   filter (\<lambda>kv. fst kv \<noteq> k) d = remove1 (k, v) d"
proof (induction d)
  case Nil
  then show ?case by simp
next
  case (Cons a d)
  show ?case
  proof (cases "a = (k, v)")
    case True
    then have "k \<notin> fst ` set d" using Cons.prems(1) by auto
    then have "filter (\<lambda>kv. fst kv \<noteq> k) d = d"
      by (induction d) auto
    then show ?thesis using True by simp
  next
    case False
    then have "(k, v) \<in> set d" using Cons.prems(2) by simp
    moreover have "fst a \<noteq> k"
      using Cons.prems(1) calculation by (cases a) force
    ultimately show ?thesis using Cons False by simp
  qed
qed

lemma distinct_fst_distinct: "distinct (map fst d) \<Longrightarrow> distinct d"
  by (simp add: distinct_map)

section \<open>Cache hits\<close>

text \<open>
  Claim C6. When the query is already a key of the context cache,
  \<open>get_relevant_context\<close> returns the stored value and moves that entry to the
  most-recently-used end. Retrieval is not invoked: the trace of calls to the embedding
  model and the vector index is unchanged, the collection is unchanged, and the cache holds
  exactly the entries it held before (nothing inserted, nothing evicted).
\<close>

theorem cache_hit_no_retrieval:
  assumes "distinct (map fst (query_cache st))"
    and "(query, v) \<in> set (query_cache st)"
  shows "case get_relevant_context ev st query n of
           (out, st') \<Rightarrow>
             out = v
             \<and> calls st' = calls st
             \<and> collection st' = collection st
             \<and> query_cache st' =
                 filter (\<lambda>kv. fst kv \<noteq> query) (query_cache st) @ [(query, v)]
             \<and> last (query_cache st') = (query, v)
             \<and> set (query_cache st') = set (query_cache st)
             \<and> length (query_cache st') = length (query_cache st)"
proof -
  have hit: "od_get (query_cache st) query = Some v"
    using assms by (rule od_get_Some)
  have f: "filter (\<lambda>kv. fst kv \<noteq> query) (query_cache st) = remove1 (query, v) (query_cache st)"
    using assms by (rule filter_key_remove1)
  have d: "distinct (query_cache st)"
    using assms(1) by (rule distinct_fst_distinct)
  have s: "set (remove1 (query, v) (query_cache st) @ [(query, v)]) = set (query_cache st)"
    using d assms(2) by auto
  have l: "length (remove1 (query, v) (query_cache st) @ [(query, v)]) = length (query_cache st)"
    using assms(2) length_pos_if_in_set [OF assms(2)] by (simp add: length_remove1)
  show ?thesis
    using s l by (simp add: context_hit [OF hit] f)
qed

theorem cache_hit_no_retrieval_witness:
  "distinct (map fst (query_cache two_entry_state))
   \<and> (''ckd'', ''A'') \<in> set (query_cache two_entry_state)
   \<and> get_relevant_context offline_env two_entry_state ''ckd'' 5 =
       (''A'', two_entry_state\<lparr>query_cache := [(''aki'', ''B''), (''ckd'', ''A'')]\<rparr>)"
proof -
  have d: "distinct (map fst (query_cache two_entry_state))"
    by (simp add: two_entry_state_def)
  have m: "(''ckd'', ''A'') \<in> set (query_cache two_entry_state)"
    by (simp add: two_entry_state_def)
  obtain out st' where g: "get_relevant_context offline_env two_entry_state ''ckd'' 5 = (out, st')"
    by (cases "get_relevant_context offline_env two_entry_state ''ckd'' 5")
  from cache_hit_no_retrieval [OF d m, of offline_env 5]
  have o: "out = ''A''"
    and c: "calls st' = calls two_entry_state"
    and k: "collection st' = collection two_entry_state"
    and q: "query_cache st' =
              filter (\<lambda>kv. fst kv \<noteq> ''ckd'') (query_cache two_entry_state) @ [(''ckd'', ''A'')]"
    unfolding g by simp_all
  have mx: "max_cache_size st' = max_cache_size two_entry_state"
    using max_cache_size_step [of offline_env two_entry_state "''ckd''" 5] unfolding g by simp
  have "st' = two_entry_state\<lparr>query_cache := [(''aki'', ''B''), (''ckd'', ''A'')]\<rparr>"
    using c k q mx by (simp add: two_entry_state_def)
  then show ?thesis
    using d m o g by simp
qed

section \<open>The cache bound and least-recently-used eviction\<close>

lemma offline_retrieve_body:
  "retrieve_body offline_env coll q n = ([EvEncode [q]], Inl EmbeddingFailure)"
  by (simp add: retrieve_body_def offline_env_def ext_call_def)

lemma offline_miss_output:
  "q \<notin> fst ` set (query_cache st) \<Longrightarrow>
   fst (get_relevant_context offline_env st q n) = no_context"
  by (simp add: context_miss Let_def retrieve_relevant_chunks_eq offline_retrieve_body
        format_context_for_llm_def)

lemma keys_init_run:
  "map fst (query_cache (run_queries ev (init_state coll) qs)) =
     drop (length (remdups (map fst qs)) - 128) (remdups (map fst qs))"
  by (rule keys_run) (simp_all add: init_state_def)

lemma length_cache_keys: "length (query_cache st) = length (map fst (query_cache st))"
  by simp

text \<open>
  Claim C1. After any sequence of \<open>get_relevant_context\<close> calls on a freshly
  constructed \<open>RAGSystem\<close> the cache holds at most 128 entries. Its keys are
  the (at most 128) most recently used distinct queries, least recently used first, where a
  query is used by the call that inserts it and by every later call that hits it. A miss
  under capacity appends the new entry and evicts nothing; a miss at capacity removes
  exactly the first entry, the least recently used one, and appends the new entry.
\<close>

theorem context_cache_bounded_lru:
  fixes ev coll qs q n
  defines "st \<equiv> run_queries ev (init_state coll) qs"
  shows "length (query_cache st) \<le> 128
         \<and> map fst (query_cache st) =
             drop (length (remdups (map fst qs)) - 128) (remdups (map fst qs))
         \<and> (q \<notin> fst ` set (query_cache st) \<longrightarrow>
              query_cache (snd (get_relevant_context ev st q n)) =
                (if length (query_cache st) < 128 then query_cache st
                 else tl (query_cache st))
                @ [(q, fst (get_relevant_context ev st q n))])"
proof -
  have k: "map fst (query_cache st) =
             drop (length (remdups (map fst qs)) - 128) (remdups (map fst qs))"
    unfolding st_def by (rule keys_init_run)
  have "length (map fst (query_cache st)) \<le> 128"
    unfolding k by simp
  then have b: "length (query_cache st) \<le> 128" by simp
  have m: "max_cache_size st = 128"
    unfolding st_def by (simp add: init_state_def)
  have s: "query_cache (snd (get_relevant_context ev st q n)) =
                (if length (query_cache st) < 128 then query_cache st
                 else tl (query_cache st))
                @ [(q, fst (get_relevant_context ev st q n))]"
    if miss: "q \<notin> fst ` set (query_cache st)"
  proof (cases "length (query_cache st) < 128")
    case True
    then show ?thesis using miss m by (simp add: context_miss Let_def)
  next
    case False
    then have "length (query_cache st) = 128" using b by simp
    then have "query_cache st \<noteq> []" by auto
    then show ?thesis using miss m False by (simp add: context_miss Let_def)
  qed
  show ?thesis using b k s by blast
qed

lemma probe_keys: "map fst (probe_queries k) = map (\<lambda>i. replicate i CHR ''q'') [0..<k]"
  by (simp add: probe_queries_def o_def)

lemma probe_distinct: "distinct (map fst (probe_queries k))"
  unfolding probe_keys by (simp add: distinct_map inj_on_def)

theorem context_cache_bounded_lru_witness:
  "replicate 128 CHR ''q''
     \<notin> fst ` set (query_cache (run_queries offline_env (init_state []) (probe_queries 128)))
   \<and> query_cache (snd (get_relevant_context offline_env
        (run_queries offline_env (init_state []) (probe_queries 128))
        (replicate 128 CHR ''q'') 5)) =
       tl (query_cache (run_queries offline_env (init_state []) (probe_queries 128)))
       @ [(replicate 128 CHR ''q'', no_context)]"
proof -
  define st where "st = run_queries offline_env (init_state []) (probe_queries 128)"
  define q where "q = replicate 128 CHR ''q''"
  note inst = context_cache_bounded_lru [of offline_env "[]" "probe_queries 128" q 5,
      folded st_def]
  have r: "remdups (map fst (probe_queries 128)) = map fst (probe_queries 128)"
    using probe_distinct by (rule distinct_remdups_id)
  have l: "length (probe_queries 128) = 128"
    by (simp add: probe_queries_def)
  have keys: "map fst (query_cache st) = map fst (probe_queries 128)"
    using inst by (simp add: r l)
  have len: "length (query_cache st) = 128"
    using arg_cong [OF keys, of length] by (simp add: l)
  have "q \<notin> set (map fst (query_cache st))"
    unfolding keys probe_keys q_def
    by (auto dest: arg_cong [where f = length])
  then have miss: "q \<notin> fst ` set (query_cache st)" by simp
  have "query_cache (snd (get_relevant_context offline_env st q 5)) =
          tl (query_cache st) @ [(q, fst (get_relevant_context offline_env st q 5))]"
    using inst miss len by simp
  then show ?thesis
    using miss offline_miss_output [OF miss, of 5] unfolding st_def q_def by simp
qed

section \<open>Retrieval failures\<close>







section \<open>The rerank sorts stably by exact score\<close>

lemma snd_bind_Inr:
  assumes "snd (bind m f) = Inr y"
  shows "\<exists>x. snd m = Inr x \<and> snd (f x) = Inr y"
proof (cases m)
  case (Pair t r)
  show ?thesis
  proof (cases r)
    case (Inl e)
    then show ?thesis using assms Pair by (simp add: bind_def)
  next
    case (Inr x)
    then show ?thesis using assms Pair by (auto simp: bind_def split: prod.splits)
  qed
qed

lemma snd_ret [simp]: "snd (ret x) = Inr x"
  by (simp add: ret_def)

lemma snd_raise [simp]: "snd (raise e) = Inl e"
  by (simp add: raise_def)

lemma map_comp_Inr:
  "snd (map_comp f xs) = Inr ys \<Longrightarrow>
   length ys = length xs \<and> (\<forall>i<length xs. snd (f (xs ! i)) = Inr (ys ! i))"
proof (induction xs arbitrary: ys)
  case Nil
  then show ?case by simp
next
  case (Cons x xs)
  from Cons.prems obtain y where y: "snd (f x) = Inr y"
    and r: "snd (bind (map_comp f xs) (\<lambda>zs. ret (y # zs))) = Inr ys"
    by (auto dest: snd_bind_Inr)
  from r obtain zs where zs: "snd (map_comp f xs) = Inr zs" and ys: "ys = y # zs"
    by (auto dest: snd_bind_Inr)
  from Cons.IH [OF zs] show ?case
    using y ys by (auto simp: nth_Cons split: nat.splits)
qed

lemma sort_reverse_sorted:
  "sorted_wrt (\<lambda>a b. f b \<le> f a) (sort_reverse f xs)"
proof -
  have "sorted_wrt (\<lambda>a b. f a \<le> f b) (sort_key f (rev xs))"
    using sorted_sort_key [of f "rev xs"] by (simp add: sorted_wrt_map)
  then show ?thesis
    by (simp add: sort_reverse_def sorted_wrt_rev)
qed

lemma sort_reverse_stable:
  "filter (\<lambda>c. f c = k) (sort_reverse f xs) = filter (\<lambda>c. f c = k) xs"
  by (simp add: sort_reverse_def rev_filter [symmetric] sort_key_stable)

lemma set_sort_reverse [simp]: "set (sort_reverse f xs) = set xs"
  by (simp add: sort_reverse_def)

lemma length_sort_reverse [simp]: "length (sort_reverse f xs) = length xs"
  by (simp add: sort_reverse_def)

lemma sorted_wrt_nth_Suc:
  "sorted_wrt P xs \<Longrightarrow> Suc i < length xs \<Longrightarrow> P (xs ! i) (xs ! Suc i)"
  by (simp add: sorted_wrt_iff_nth_less)

lemma length_attach_scores [simp]:
  "length (attach_scores cs scores) = min (length cs) (length scores)"
  by (simp add: attach_scores_def)

lemma nth_attach_scores:
  "i < length cs \<Longrightarrow> i < length scores \<Longrightarrow>
   attach_scores cs scores ! i = (cs ! i)\<lparr>c_score := Some (scores ! i)\<rparr>"
  by (simp add: attach_scores_def)

lemma in_attach_scores:
  assumes "c \<in> set (attach_scores cs scores)"
  shows "\<exists>i. i < length cs \<and> i < length scores \<and> c = (cs ! i)\<lparr>c_score := Some (scores ! i)\<rparr>"
proof -
  from assms obtain i where "i < length (attach_scores cs scores)"
    and "c = attach_scores cs scores ! i"
    by (auto simp: in_set_conv_nth)
  then show ?thesis
    by (auto simp: nth_attach_scores)
qed

lemma rerank_Inr:
  assumes "snd (rerank ev qe cands) = Inr out"
  shows "\<exists>embs. length cands \<le> length embs
           \<and> out = sort_reverse score_key
                     (attach_scores cands (map (\<lambda>i. cosine (embs ! i) qe) [0..<length cands]))"
proof (cases "cands = []")
  case True
  then have "out = []" using assms by (simp add: rerank_def)
  then show ?thesis using True
    by (intro exI [of _ "[]"]) (simp add: sort_reverse_def attach_scores_def)
next
  case False
  with assms obtain sub_embs scores where
    sc: "snd (map_comp (\<lambda>i. bind (py_nth (concat sub_embs) i) (\<lambda>v. ret (cosine v qe)))
               [0..<length cands]) = Inr scores"
    and out: "out = sort_reverse score_key (attach_scores cands scores)"
    by (auto simp: rerank_def dest!: snd_bind_Inr)
  from map_comp_Inr [OF sc] have len: "length scores = length cands"
    and each: "\<forall>i<length cands.
        snd (bind (py_nth (concat sub_embs) i) (\<lambda>v. ret (cosine v qe))) = Inr (scores ! i)"
    by simp_all
  have ok: "i < length (concat sub_embs) \<and> scores ! i = cosine (concat sub_embs ! i) qe"
    if "i < length cands" for i
    using each that by (auto simp: py_nth_def split: if_splits)
  have "length cands \<le> length (concat sub_embs)"
  proof (cases "length cands")
    case 0
    then show ?thesis by simp
  next
    case (Suc k)
    then have "k < length (concat sub_embs)" using ok [of k] by simp
    then show ?thesis using Suc by simp
  qed
  moreover have "scores = map (\<lambda>i. cosine (concat sub_embs ! i) qe) [0..<length cands]"
    using len ok by (intro nth_equalityI) simp_all
  ultimately show ?thesis using out by blast
qed

lemma retrieve_body_Inr:
  assumes "snd (retrieve_body ev coll query n) = Inr out"
  shows "\<exists>embs qe results cands.
           encode ev [query] = Inr embs \<and> embs \<noteq> [] \<and> qe = embs ! 0
           \<and> index_query ev coll qe n = Inr results
           \<and> snd (format_results results) = Inr cands
           \<and> snd (rerank ev qe cands) = Inr out"
proof -
  from assms obtain embs qe results cands where e: "encode ev [query] = Inr embs"
    and q: "snd (py_nth embs 0) = Inr qe"
    and i: "index_query ev coll qe n = Inr results"
    and f: "snd (format_results results) = Inr cands"
    and r: "snd (rerank ev qe cands) = Inr out"
    unfolding retrieve_body_def by (auto simp: ext_call_def dest!: snd_bind_Inr)
  from q have ne: "embs \<noteq> []" and qe: "qe = embs ! 0"
    by (auto simp: py_nth_def split: if_splits)
  show ?thesis using e ne qe i f r by blast
qed

lemma score_key_attached [simp]: "score_key (c\<lparr>c_score := Some s\<rparr>) = s"
  by (simp add: score_key_def)

section \<open>Retrieval on the demonstration installation\<close>

lemma batches_single: "xs \<noteq> [] \<Longrightarrow> length xs \<le> n \<Longrightarrow> batches n xs = [xs]"
  by (cases n) (simp_all add: batches.simps [of _ xs] batches.simps [of _ "[]"])

lemma demo_format_results: "format_results demo_results = ([], Inr demo_candidates)"
  by (simp add: format_results_def demo_results_def make_chunk_info_def py_subscript_def
        py_nth_def upt_rec [of 0] upt_rec [of 1] upt_rec [of 2] upt_rec [of 3]
        demo_candidates_def ret_def bind_def)

lemma demo_cosines:
  "cosine [0, 1] [1, 0] = 0" "cosine [1, 0] [1, 0] = 1"
  by (simp_all add: cosine_def)

lemma demo_rerank:
  "rerank demo_env [1, 0] demo_candidates =
     ([EvEncode [''alpha'', ''beta'', ''gamma'']], Inr demo_chunks)"
  by (simp add: rerank_def demo_candidates_def batches_single demo_env_def demo_embed_def
        ext_call_def bind_def ret_def py_nth_def demo_cosines
        upt_rec [of 0] upt_rec [of 1] upt_rec [of 2] upt_rec [of 3]
        attach_scores_def sort_reverse_def score_key_def demo_chunks_def)

lemma demo_encode_query: "encode demo_env [''q''] = Inr [[1, 0]]"
  by (simp add: demo_env_def demo_embed_def)

lemma demo_index_query: "index_query demo_env coll v n = Inr demo_results"
  by (simp add: demo_env_def)

lemma demo_retrieve_body:
  "retrieve_body demo_env coll ''q'' 5 =
     ([EvEncode [''q''], EvQuery [1, 0] 5, EvEncode [''alpha'', ''beta'', ''gamma'']],
      Inr demo_chunks)"
  by (simp add: retrieve_body_def bind_def ext_call_def py_nth_def ret_def
        demo_encode_query demo_index_query demo_format_results demo_rerank)

section \<open>The candidates built from an index answer\<close>

lemma map_comp_ret:
  "(\<And>x. x \<in> set xs \<Longrightarrow> f x = ret (g x)) \<Longrightarrow> map_comp f xs = ret (map g xs)"
  by (induction xs) simp_all

lemma make_chunk_info_ok:
  assumes "metadatas results = Some (map Some ms # mrest)"
    and "i < length ms"
    and "\<forall>d0 ds. distances results = Some (d0 # ds) \<longrightarrow> i < length d0"
  shows "make_chunk_info results i doc =
           ret \<lparr>c_text = doc,
                c_source = Some (case (ms ! i) ''source'' of None \<Rightarrow> ''Unknown'' | Some s \<Rightarrow> s),
                c_chunk_id = Some (case (ms ! i) ''chunk_id'' of None \<Rightarrow> ''Unknown'' | Some s \<Rightarrow> s),
                c_distance = (case distances results of
                                Some (d0 # ds) \<Rightarrow> Some (d0 ! i) | _ \<Rightarrow> None),
                c_score = None\<rparr>"
  using assms
  by (simp add: make_chunk_info_def py_subscript_def py_nth_def
        split: option.splits list.splits)

lemma format_results_ok:
  assumes docs: "documents results = Some (docs0 # drest)"
    and metas: "metadatas results = Some (map Some ms # mrest)"
    and len: "length docs0 \<le> length ms"
    and dists: "\<forall>d0 ds. distances results = Some (d0 # ds) \<longrightarrow> length docs0 \<le> length d0"
  shows "format_results results =
           ret (map (\<lambda>i. \<lparr>c_text = docs0 ! i,
                c_source = Some (case (ms ! i) ''source'' of None \<Rightarrow> ''Unknown'' | Some s \<Rightarrow> s),
                c_chunk_id = Some (case (ms ! i) ''chunk_id'' of None \<Rightarrow> ''Unknown'' | Some s \<Rightarrow> s),
                c_distance = (case distances results of
                                Some (d0 # ds) \<Rightarrow> Some (d0 ! i) | _ \<Rightarrow> None),
                c_score = None\<rparr>) [0..<length docs0])"
    (is "_ = ret (map ?mk _)")
proof (cases "docs0 = []")
  case True
  then show ?thesis using docs by (simp add: format_results_def)
next
  case False
  have each: "(case x of (i, doc) \<Rightarrow> make_chunk_info results i doc)
                = ret (case x of (i, doc) \<Rightarrow> ?mk i)"
    if "x \<in> set (zip [0..<length docs0] docs0)" for x
  proof -
    obtain i doc where x: "x = (i, doc)" by (cases x)
    from that have i: "i < length docs0" and d: "doc = docs0 ! i"
      unfolding x by (auto simp: set_zip)
    have "\<forall>d0 ds. distances results = Some (d0 # ds) \<longrightarrow> i < length d0"
      using dists i by fastforce
    from make_chunk_info_ok [OF metas _ this, of doc] show ?thesis
      unfolding x prod.case using i len d by simp
  qed
  have "map (\<lambda>x. case x of (i, doc) \<Rightarrow> ?mk i) (zip [0..<length docs0] docs0)
          = map ?mk [0..<length docs0]"
    by (intro nth_equalityI) (simp_all cong: option.case_cong list.case_cong)
  then show ?thesis
    using False docs
      map_comp_ret [of "zip [0..<length docs0] docs0" _ "\<lambda>x. case x of (i, doc) \<Rightarrow> ?mk i",
        OF each]
    by (simp add: format_results_def)
qed

section \<open>The formatted context\<close>

lemma is_prefix_append: "is_prefix xs (xs @ ys)"
  by (induction xs) simp_all

lemma contains_prefix: "is_prefix sub s \<Longrightarrow> contains s sub"
  by (cases s) simp_all

lemma contains_append: "contains (p @ sub @ q) sub"
  by (induction p) (simp_all add: contains_prefix is_prefix_append)

lemma format_chunk_eq: "format_chunk context (i, chunk) = context @ rendered_chunk i chunk"
  by (simp add: format_chunk_def rendered_chunk_def)

lemma foldl_format_chunk:
  "foldl format_chunk acc ics = acc @ concat (map (\<lambda>(i, c). rendered_chunk i c) ics)"
  by (induction ics arbitrary: acc) (auto simp: format_chunk_eq)

lemma concat_map_nth_split:
  assumes "i < length xs"
  shows "\<exists>p q. concat (map f xs) = p @ f (xs ! i) @ q"
proof -
  have "xs = take i xs @ xs ! i # drop (Suc i) xs"
    using assms by (simp add: id_take_nth_drop)
  then have "concat (map f xs) =
      concat (map f (take i xs @ xs ! i # drop (Suc i) xs))"
    by simp
  then have "concat (map f xs) =
      concat (map f (take i xs)) @ f (xs ! i) @ concat (map f (drop (Suc i) xs))"
    by simp
  then show ?thesis by blast
qed

lemma rendered_chunk_id [simp]:
  "rendered_chunk i (c\<lparr>c_chunk_id := x\<rparr>) = rendered_chunk i c"
  by (simp add: rendered_chunk_def)

lemma format_eq_concat:
  "chunks \<noteq> [] \<Longrightarrow>
   format_context_for_llm chunks =
     ''Reference Material Citations:'' @ [CHR 0x0A, CHR 0x0A]
     @ concat (map (\<lambda>(i, c). rendered_chunk i c) (zip [1..<Suc (length chunks)] chunks))"
  by (simp add: format_context_for_llm_def foldl_format_chunk)

text \<open>
  Claim C7, as the code has it. For a non-empty chunk list the formatted context holds,
  for each chunk, the tag \<open>[Source i: source]\<close> with \<open>i\<close> the chunk's 1-based
  position in the list and \<open>source\<close> its source (\<open>Nephrology Reference\<close> when the
  key is absent), followed by a newline, the chunk's text and an empty line. The chunk
  identifier is not rendered: the context does not depend on it.
\<close>

theorem format_context_cites_source:
  assumes "chunks \<noteq> []" and "i < length chunks"
  shows "contains (format_context_for_llm chunks)
           (''[Source '' @ string_of_nat (Suc i) @ '': ''
            @ (case c_source (chunks ! i) of None \<Rightarrow> ''Nephrology Reference'' | Some s \<Rightarrow> s)
            @ '']'' @ [CHR 0x0A]
            @ c_text (chunks ! i) @ [CHR 0x0A, CHR 0x0A])
         \<and> format_context_for_llm (map (\<lambda>c. c\<lparr>c_chunk_id := ids c\<rparr>) chunks)
             = format_context_for_llm chunks"
proof -
  let ?ics = "zip [1..<Suc (length chunks)] chunks"
  have li: "i < length ?ics" using assms(2) by (simp del: upt_Suc)
  have nth: "?ics ! i = (Suc i, chunks ! i)"
    using assms(2) by (simp del: upt_Suc)
  from concat_map_nth_split [OF li, of "\<lambda>(i, c). rendered_chunk i c"]
  obtain p q where
    "concat (map (\<lambda>(i, c). rendered_chunk i c) ?ics) = p @ rendered_chunk (Suc i) (chunks ! i) @ q"
    unfolding nth by auto
  then have "format_context_for_llm chunks =
      (''Reference Material Citations:'' @ [CHR 0x0A, CHR 0x0A] @ p)
      @ rendered_chunk (Suc i) (chunks ! i) @ q"
    by (simp del: upt_Suc add: format_eq_concat [OF assms(1)])
  then have a: "contains (format_context_for_llm chunks) (rendered_chunk (Suc i) (chunks ! i))"
    by (metis contains_append)
  have "map (\<lambda>(i, c). rendered_chunk i c)
          (zip [1..<Suc (length chunks)] (map (\<lambda>c. c\<lparr>c_chunk_id := ids c\<rparr>) chunks))
        = map (\<lambda>(i, c). rendered_chunk i c) ?ics"
    by (intro nth_equalityI) (simp_all del: upt_Suc)
  then have b: "format_context_for_llm (map (\<lambda>c. c\<lparr>c_chunk_id := ids c\<rparr>) chunks)
             = format_context_for_llm chunks"
    using assms(1) by (simp del: upt_Suc add: format_eq_concat)
  show ?thesis using a b by (simp add: rendered_chunk_def)
qed

lemma string_of_nat_1: "string_of_nat (Suc 0) = ''1''"
  by (simp add: string_of_nat.simps [of "Suc 0"])

lemma format_cited_chunk:
  "format_context_for_llm [cited_chunk] =
     ''Reference Material Citations:'' @ [CHR 0x0A, CHR 0x0A]
     @ ''[Source 1: neph.pdf]'' @ [CHR 0x0A] @ ''Kidney'' @ [CHR 0x0A, CHR 0x0A]"
  by (simp add: format_context_for_llm_def format_chunk_def cited_chunk_def string_of_nat_1)

theorem format_context_cites_source_witness:
  "[cited_chunk] \<noteq> [] \<and> 0 < length [cited_chunk]
   \<and> contains (format_context_for_llm [cited_chunk])
        (''[Source 1: neph.pdf]'' @ [CHR 0x0A] @ ''Kidney'' @ [CHR 0x0A, CHR 0x0A])
   \<and> format_context_for_llm (map (\<lambda>c. c\<lparr>c_chunk_id := Some ''8''\<rparr>) [cited_chunk])
       = format_context_for_llm [cited_chunk]"
  using format_context_cites_source [of "[cited_chunk]" 0 "\<lambda>c. Some ''8''"]
  by (simp add: string_of_nat_1 cited_chunk_def)

text \<open>
  The claim as stated fails: the context rendered for a chunk with identifier \<open>7\<close>
  does not contain that identifier.
\<close>

theorem format_context_omits_chunk_id:
  "c_chunk_id cited_chunk = Some ''7''
   \<and> \<not> contains (format_context_for_llm [cited_chunk]) ''7''"
  by (simp add: format_cited_chunk) (simp add: cited_chunk_def)

section \<open>Successful retrieval\<close>

lemma encode_batches_ok:
  "map (encode ev) bs = map Inr es \<Longrightarrow>
   map_comp (\<lambda>sub. ext_call (EvEncode sub) (encode ev sub)) bs = (map EvEncode bs, Inr es)"
proof (induction bs arbitrary: es)
  case Nil
  then show ?case by (simp add: ret_def)
next
  case (Cons b bs)
  then obtain e es' where es: "es = e # es'" by (cases es) auto
  with Cons.prems have b: "encode ev b = Inr e" and r: "map (encode ev) bs = map Inr es'"
    by simp_all
  show ?case
    using Cons.IH [OF r] b es by (simp add: ext_call_def bind_def ret_def)
qed

lemma scores_ok:
  assumes "n \<le> length embs"
  shows "map_comp (\<lambda>i. bind (py_nth embs i) (\<lambda>v. ret (cosine v qe))) [0..<n]
           = ret (map (\<lambda>i. cosine (embs ! i) qe) [0..<n])"
  using assms by (intro map_comp_ret) (simp add: py_nth_def)

lemma fst_ret [simp]: "fst (ret x) = []"
  by (simp add: ret_def)

lemma rerank_ok:
  assumes "map (encode ev) (batches 64 (map c_text cands)) = map Inr sub_embs"
    and "length cands \<le> length (concat sub_embs)"
  shows "rerank ev qe cands =
           (map EvEncode (batches 64 (map c_text cands)),
            Inr (sort_reverse score_key
                   (attach_scores cands
                      (map (\<lambda>i. cosine (concat sub_embs ! i) qe) [0..<length cands]))))"
proof (cases "cands = []")
  case True
  then show ?thesis
    by (simp add: rerank_def ret_def batches.simps [of _ "[]"] sort_reverse_def attach_scores_def)
next
  case False
  note a = encode_batches_ok [OF assms(1)]
  note b = scores_ok [OF assms(2), of qe]
  show ?thesis
    using False by (simp add: rerank_def a b bind_Inr)
qed

lemma retrieve_body_ok:
  assumes enc: "encode ev [query] = Inr (qe # erest)"
    and idx: "index_query ev coll qe n = Inr results"
    and fmt: "format_results results = ret cands"
    and sub: "map (encode ev) (batches 64 (map c_text cands)) = map Inr sub_embs"
    and enough: "length cands \<le> length (concat sub_embs)"
  shows "retrieve_body ev coll query n =
           ([EvEncode [query], EvQuery qe n] @ map EvEncode (batches 64 (map c_text cands)),
            Inr (sort_reverse score_key
                   (attach_scores cands
                      (map (\<lambda>i. cosine (concat sub_embs ! i) qe) [0..<length cands]))))"
proof -
  note r = rerank_ok [OF sub enough, of qe]
  have q: "py_nth (qe # erest) 0 = ret qe"
    by (simp add: py_nth_def)
  show ?thesis
    unfolding retrieve_body_def
    by (simp add: enc idx fmt r q ext_call_def bind_Inr)
qed

lemma attach_scores_map:
  "attach_scores (map g [0..<n]) (map h [0..<length (map g [0..<n])])
     = map (\<lambda>i. (g i)\<lparr>c_score := Some (h i)\<rparr>) [0..<n]"
  by (intro nth_equalityI) (simp_all add: attach_scores_def)

lemma insort_key_map:
  "insort_key f (g x) (map g xs) = map g (insort_key (\<lambda>y. f (g y)) x xs)"
  by (induction xs) simp_all

lemma sort_key_map:
  "sort_key f (map g xs) = map g (sort_key (\<lambda>y. f (g y)) xs)"
  by (induction xs) (simp_all add: insort_key_map)

lemma sort_reverse_map:
  "sort_reverse f (map g xs) = map g (sort_reverse (\<lambda>y. f (g y)) xs)"
  by (simp add: sort_reverse_def rev_map sort_key_map)

lemma sorted_wrt_filter_rel:
  "sorted_wrt R (filter P xs) \<Longrightarrow> sorted_wrt (\<lambda>x y. P x \<and> P y \<longrightarrow> R x y) xs"
  by (induction xs) (auto split: if_splits)

lemma sort_reverse_upt_order:
  fixes f :: "nat \<Rightarrow> real"
  shows "sorted_wrt (\<lambda>i j. f j < f i \<or> (f j = f i \<and> i < j)) (sort_reverse f [0..<n])"
proof -
  define p where "p = sort_reverse f [0..<n]"
  have desc: "sorted_wrt (\<lambda>a b. f b \<le> f a) p"
    unfolding p_def by (rule sort_reverse_sorted)
  have ties: "sorted_wrt (\<lambda>x y. f x = k \<and> f y = k \<longrightarrow> x < y) p" for k
  proof -
    have "sorted_wrt (<) (filter (\<lambda>i. f i = k) [0..<n])"
      by (rule sorted_wrt_filter) (simp add: sorted_wrt_upt)
    then have "sorted_wrt (<) (filter (\<lambda>i. f i = k) p)"
      unfolding p_def by (simp add: sort_reverse_stable)
    then show ?thesis by (rule sorted_wrt_filter_rel)
  qed
  have "sorted_wrt (\<lambda>i j. f j < f i \<or> (f j = f i \<and> i < j)) p"
    unfolding sorted_wrt_iff_nth_less
  proof (intro allI impI)
    fix a b assume ab: "a < b" "b < length p"
    from desc ab have le: "f (p ! b) \<le> f (p ! a)"
      by (simp add: sorted_wrt_iff_nth_less)
    from ties [of "f (p ! a)"] ab
    have "f (p ! b) = f (p ! a) \<longrightarrow> p ! a < p ! b"
      by (simp add: sorted_wrt_iff_nth_less)
    with le show "f (p ! b) < f (p ! a) \<or> (f (p ! b) = f (p ! a) \<and> p ! a < p ! b)"
      by auto
  qed
  then show ?thesis by (simp add: p_def)
qed

lemma insort_key_cong_set:
  "f x = g x \<Longrightarrow> (\<And>y. y \<in> set xs \<Longrightarrow> f y = g y) \<Longrightarrow> insort_key f x xs = insort_key g x xs"
  by (induction xs) simp_all

lemma sort_key_cong_set:
  "(\<And>y. y \<in> set xs \<Longrightarrow> f y = g y) \<Longrightarrow> sort_key f xs = sort_key g xs"
proof (induction xs)
  case Nil
  then show ?case by simp
next
  case (Cons x xs)
  then have "sort_key f xs = sort_key g xs" by simp
  moreover have "insort_key f x (sort_key g xs) = insort_key g x (sort_key g xs)"
    using Cons.prems by (intro insort_key_cong_set) simp_all
  ultimately show ?case by simp
qed

lemma sort_reverse_cong_set:
  "(\<And>y. y \<in> set xs \<Longrightarrow> f y = g y) \<Longrightarrow> sort_reverse f xs = sort_reverse g xs"
  unfolding sort_reverse_def by (intro arg_cong [where f = rev] sort_key_cong_set) simp

lemma sort_reverse_upt_perm:
  "set (sort_reverse f [0..<n]) = {0..<n}" "distinct (sort_reverse f [0..<n])"
  by (simp_all add: sort_reverse_def)

lemma retrieved_sorted_scored:
  "sorted_wrt (\<lambda>a b. score_key b \<le> score_key a) (fst (retrieve_relevant_chunks ev st query n))
   \<and> (\<forall>c \<in> set (fst (retrieve_relevant_chunks ev st query n)).
          \<exists>s. c_score c = Some s \<and> score_key c = s)"
proof (cases "snd (retrieve_body ev (collection st) query n)")
  case (Inl e)
  then show ?thesis by (simp add: retrieve_relevant_chunks_eq)
next
  case (Inr cs)
  then have o: "fst (retrieve_relevant_chunks ev st query n) = cs"
    by (simp add: retrieve_relevant_chunks_eq)
  from retrieve_body_Inr [OF Inr] obtain qe' cands' where
    "snd (rerank ev qe' cands') = Inr cs" by blast
  from rerank_Inr [OF this] obtain embs where
    c: "cs = sort_reverse score_key
             (attach_scores cands' (map (\<lambda>i. cosine (embs ! i) qe') [0..<length cands']))"
    by blast
  have "sorted_wrt (\<lambda>a b. score_key b \<le> score_key a) cs"
    unfolding c by (rule sort_reverse_sorted)
  moreover have "\<exists>s. c_score x = Some s \<and> score_key x = s" if "x \<in> set cs" for x
    using that in_attach_scores [of x cands' "map (\<lambda>i. cosine (embs ! i) qe') [0..<length cands']"]
    unfolding c by (auto simp: score_key_def)
  ultimately show ?thesis using o by blast
qed

lemma retrieve_relevant_chunks_ok:
  assumes enc: "encode ev [query] = Inr (qe # erest)"
    and idx: "index_query ev (collection st) qe n = Inr results"
    and docs: "documents results = Some (docs0 # drest)"
    and metas: "metadatas results = Some (map Some ms # mrest)"
    and len: "length docs0 \<le> length ms"
    and dists: "length docs0 \<le> (case distances results of
                                   Some (d0 # ds) \<Rightarrow> length d0 | _ \<Rightarrow> length docs0)"
    and sub: "map (encode ev) (batches 64 docs0) = map Inr sub_embs"
    and enough: "length docs0 \<le> length (concat sub_embs)"
  shows "retrieve_body ev (collection st) query n =
           ([EvEncode [query], EvQuery qe n] @ map EvEncode (batches 64 docs0),
            Inr (sort_reverse score_key
              (map (\<lambda>i. \<lparr>c_text = docs0 ! i,
                 c_source = Some (case (ms ! i) ''source'' of None \<Rightarrow> ''Unknown'' | Some s \<Rightarrow> s),
                 c_chunk_id = Some (case (ms ! i) ''chunk_id'' of None \<Rightarrow> ''Unknown'' | Some s \<Rightarrow> s),
                 c_distance = (case distances results of
                                 Some (d0 # ds) \<Rightarrow> Some (d0 ! i) | _ \<Rightarrow> None),
                 c_score = Some (cosine (concat sub_embs ! i) qe)\<rparr>) [0..<length docs0])))"
proof -
  define mk where "mk = (\<lambda>i. \<lparr>c_text = docs0 ! i,
                c_source = Some (case (ms ! i) ''source'' of None \<Rightarrow> ''Unknown'' | Some s \<Rightarrow> s),
                c_chunk_id = Some (case (ms ! i) ''chunk_id'' of None \<Rightarrow> ''Unknown'' | Some s \<Rightarrow> s),
                c_distance = (case distances results of
                                Some (d0 # ds) \<Rightarrow> Some (d0 ! i) | _ \<Rightarrow> None),
                c_score = None\<rparr>)"
  define cands where "cands = map mk [0..<length docs0]"
  have dists': "\<forall>d0 ds. distances results = Some (d0 # ds) \<longrightarrow> length docs0 \<le> length d0"
    using dists by auto
  have fmt: "format_results results = ret cands"
    using format_results_ok [OF docs metas len dists'] by (simp add: cands_def mk_def)
  have texts: "map c_text cands = docs0"
    by (intro nth_equalityI) (simp_all add: cands_def mk_def)
  have lc: "length cands = length docs0"
    by (simp add: cands_def)
  have sc: "attach_scores cands (map (\<lambda>i. cosine (concat sub_embs ! i) qe) [0..<length cands])
              = map (\<lambda>i. (mk i)\<lparr>c_score := Some (cosine (concat sub_embs ! i) qe)\<rparr>)
                  [0..<length docs0]"
    unfolding cands_def by (rule attach_scores_map)
  from retrieve_body_ok [OF enc idx fmt, of sub_embs] sub enough
  show ?thesis
    by (simp add: texts lc sc [unfolded lc]) (simp add: mk_def)
qed

section \<open>Ordering of the retrieved chunks\<close>

lemma ranked_encode_query: "encode ranked_env [''q''] = Inr [[1, 0]]"
  by (simp add: ranked_env_def demo_env_def demo_embed_def)

lemma ranked_index_query: "index_query ranked_env coll v n = Inr ranked_results"
  by (simp add: ranked_env_def)

lemma ranked_encode_batches:
  "map (encode ranked_env) (batches 64 [''alpha'', ''beta'', ''gamma''])
     = map Inr [[[0, 1], [1, 0], [0, 1]]]"
  by (simp add: batches_single ranked_env_def demo_env_def demo_embed_def)

text \<open>
  Claim C3. The list returned by \<open>retrieve_relevant_chunks\<close> is always in
  descending order of exact cosine score, and every chunk in it carries a score. When
  the embedding model embeds the query, the index answers with documents
  \<open>docs\<close>, metadata dictionaries \<open>ms\<close> and (possibly) distances, and the
  embedding model embeds the documents, in batches of 64, as \<open>embs\<close>, retrieval
  succeeds and returns exactly one chunk per document of the index, in the order
  \<open>p\<close> of document positions: chunk \<open>k\<close> carries the text and metadata of
  document \<open>p ! k\<close>, the cosine of \<open>embs ! (p ! k)\<close> and the query embedding as
  its score, and as its distance the index's distance for that document (\<open>None\<close> if
  the index supplied no distances). \<open>p\<close> is a permutation of the positions in
  which a later chunk has a smaller score, or the same score and a later position in the
  index's answer; so the result is the stable descending sort of the scored candidates.
\<close>

theorem retrieve_sorted_by_exact_score:
  fixes ev st query n qe erest results docs drest ms mrest sub_embs
  defines "out \<equiv> fst (retrieve_relevant_chunks ev st query n)"
    and "embs \<equiv> concat sub_embs"
  defines "scored \<equiv> map (\<lambda>i.
             \<lparr>c_text = docs ! i,
              c_source = Some (case (ms ! i) ''source'' of None \<Rightarrow> ''Unknown'' | Some s \<Rightarrow> s),
              c_chunk_id = Some (case (ms ! i) ''chunk_id'' of None \<Rightarrow> ''Unknown'' | Some s \<Rightarrow> s),
              c_distance = (case distances results of
                              Some (d0 # ds) \<Rightarrow> Some (d0 ! i) | _ \<Rightarrow> None),
              c_score = Some (cosine (embs ! i) qe)\<rparr>) [0..<length docs]"
  shows "sorted_wrt (\<lambda>a b. score_key b \<le> score_key a) out
         \<and> (\<forall>i. Suc i < length out \<longrightarrow> score_key (out ! Suc i) \<le> score_key (out ! i))
         \<and> (\<forall>c \<in> set out. \<exists>s. c_score c = Some s \<and> score_key c = s)
         \<and> (encode ev [query] = Inr (qe # erest)
              \<and> index_query ev (collection st) qe n = Inr results
              \<and> documents results = Some (docs # drest)
              \<and> metadatas results = Some (map Some ms # mrest)
              \<and> length docs \<le> length ms
              \<and> length docs \<le> (case distances results of
                                     Some (d0 # ds) \<Rightarrow> length d0 | _ \<Rightarrow> length docs)
              \<and> map (encode ev) (batches 64 docs) = map Inr sub_embs
              \<and> length docs \<le> length embs
            \<longrightarrow> snd (retrieve_body ev (collection st) query n) = Inr out
                \<and> out = sort_reverse score_key scored
                \<and> length out = length docs
                \<and> (\<forall>k. filter (\<lambda>c. score_key c = k) out = filter (\<lambda>c. score_key c = k) scored)
                \<and> (\<exists>p. out = map (\<lambda>i. scored ! i) p
                       \<and> set p = {0..<length docs} \<and> distinct p
                       \<and> sorted_wrt (\<lambda>i j. cosine (embs ! j) qe < cosine (embs ! i) qe
                                      \<or> (cosine (embs ! j) qe = cosine (embs ! i) qe \<and> i < j)) p))"
proof -
  have always: "sorted_wrt (\<lambda>a b. score_key b \<le> score_key a) out
                \<and> (\<forall>c \<in> set out. \<exists>s. c_score c = Some s \<and> score_key c = s)"
    unfolding out_def by (rule retrieved_sorted_scored)
  then have nth: "\<forall>i. Suc i < length out \<longrightarrow> score_key (out ! Suc i) \<le> score_key (out ! i)"
    by (auto dest: sorted_wrt_nth_Suc)
  have success: "snd (retrieve_body ev (collection st) query n) = Inr out
                \<and> out = sort_reverse score_key scored
                \<and> length out = length docs
                \<and> (\<forall>k. filter (\<lambda>c. score_key c = k) out = filter (\<lambda>c. score_key c = k) scored)
                \<and> (\<exists>p. out = map (\<lambda>i. scored ! i) p
                       \<and> set p = {0..<length docs} \<and> distinct p
                       \<and> sorted_wrt (\<lambda>i j. cosine (embs ! j) qe < cosine (embs ! i) qe
                                      \<or> (cosine (embs ! j) qe = cosine (embs ! i) qe \<and> i < j)) p)"
    if enc: "encode ev [query] = Inr (qe # erest)"
      and idx: "index_query ev (collection st) qe n = Inr results"
      and docs: "documents results = Some (docs # drest)"
      and metas: "metadatas results = Some (map Some ms # mrest)"
      and len: "length docs \<le> length ms"
      and dists: "length docs \<le> (case distances results of
                                     Some (d0 # ds) \<Rightarrow> length d0 | _ \<Rightarrow> length docs)"
      and sub: "map (encode ev) (batches 64 docs) = map Inr sub_embs"
      and enough: "length docs \<le> length embs"
  proof -
    from retrieve_relevant_chunks_ok [OF enc idx docs metas len dists sub]
    have body: "snd (retrieve_body ev (collection st) query n) = Inr (sort_reverse score_key scored)"
      using enough by (simp add: scored_def embs_def)
    then have o: "out = sort_reverse score_key scored"
      by (simp add: out_def retrieve_relevant_chunks_eq)
    have l: "length scored = length docs"
      by (simp add: scored_def)
    define p where "p = sort_reverse (\<lambda>i. cosine (embs ! i) qe) [0..<length docs]"
    have ident: "scored = map (\<lambda>i. scored ! i) [0..<length docs]"
      using l by (intro nth_equalityI) simp_all
    have key: "score_key (scored ! i) = cosine (embs ! i) qe" if "i < length docs" for i
      using that by (simp add: scored_def score_key_def)
    have "sort_reverse score_key scored
            = map (\<lambda>i. scored ! i) (sort_reverse (\<lambda>i. score_key (scored ! i)) [0..<length docs])"
      using sort_reverse_map [of score_key "\<lambda>i. scored ! i" "[0..<length docs]"] ident
      by simp
    also have "sort_reverse (\<lambda>i. score_key (scored ! i)) [0..<length docs] = p"
      unfolding p_def by (intro sort_reverse_cong_set) (simp add: key)
    finally have op: "out = map (\<lambda>i. scored ! i) p"
      using o by simp
    have "set p = {0..<length docs}" "distinct p"
      unfolding p_def by (rule sort_reverse_upt_perm)+
    moreover have "sorted_wrt (\<lambda>i j. cosine (embs ! j) qe < cosine (embs ! i) qe
                        \<or> (cosine (embs ! j) qe = cosine (embs ! i) qe \<and> i < j)) p"
      unfolding p_def by (rule sort_reverse_upt_order)
    ultimately have perm: "\<exists>p. out = map (\<lambda>i. scored ! i) p
                       \<and> set p = {0..<length docs} \<and> distinct p
                       \<and> sorted_wrt (\<lambda>i j. cosine (embs ! j) qe < cosine (embs ! i) qe
                                      \<or> (cosine (embs ! j) qe = cosine (embs ! i) qe \<and> i < j)) p"
      using op by blast
    have "\<forall>k. filter (\<lambda>c. score_key c = k) out = filter (\<lambda>c. score_key c = k) scored"
      unfolding o by (simp add: sort_reverse_stable)
    then show ?thesis
      using body o l perm by simp
  qed
  show ?thesis
    using always nth success by blast
qed

theorem retrieve_sorted_by_exact_score_witness:
  "encode ranked_env [''q''] = Inr ([1, 0] # [])
   \<and> index_query ranked_env (collection (init_state [])) [1, 0] 5 = Inr ranked_results
   \<and> documents ranked_results = Some ([''alpha'', ''beta'', ''gamma''] # [])
   \<and> metadatas ranked_results =
        Some (map Some [[''source'' \<mapsto> ''neph.pdf'', ''chunk_id'' \<mapsto> ''0''],
                         Map.empty, [''chunk_id'' \<mapsto> ''2'']] # [])
   \<and> distances ranked_results = Some [[1 / 4, 1 / 2, 3 / 4]]
   \<and> map (encode ranked_env) (batches 64 [''alpha'', ''beta'', ''gamma''])
        = map Inr [[[0, 1], [1, 0], [0, 1]]]
   \<and> snd (retrieve_body ranked_env (collection (init_state [])) ''q'' 5) = Inr ranked_chunks
   \<and> fst (retrieve_relevant_chunks ranked_env (init_state []) ''q'' 5) = ranked_chunks
   \<and> sorted_wrt (\<lambda>a b. score_key b \<le> score_key a) ranked_chunks
   \<and> map c_distance ranked_chunks = [Some (1 / 2), Some (1 / 4), Some (3 / 4)]
   \<and> map c_score ranked_chunks = [Some 1, Some 0, Some 0]"
proof -
  define ms :: "metadata list" where
    "ms = [[''source'' \<mapsto> ''neph.pdf'', ''chunk_id'' \<mapsto> ''0''],
           Map.empty, [''chunk_id'' \<mapsto> ''2'']]"
  define docs0 where "docs0 = [''alpha'', ''beta'', ''gamma'']"
  define sub_embs :: "vec list list" where "sub_embs = [[[0, 1], [1, 0], [0, 1]]]"
  have enc: "encode ranked_env [''q''] = Inr ([1, 0] # [])"
    by (rule ranked_encode_query)
  have idx: "index_query ranked_env (collection (init_state [])) [1, 0] 5 = Inr ranked_results"
    by (rule ranked_index_query)
  have docs: "documents ranked_results = Some (docs0 # [])"
    by (simp add: ranked_results_def docs0_def)
  have metas: "metadatas ranked_results = Some (map Some ms # [])"
    by (simp add: ranked_results_def ms_def)
  have len: "length docs0 \<le> length ms"
    by (simp add: docs0_def ms_def)
  have ds: "distances ranked_results = Some [[1 / 4, 1 / 2, 3 / 4]]"
    by (simp add: ranked_results_def)
  have dists: "length docs0 \<le> (case distances ranked_results of
                                   Some (d0 # ds) \<Rightarrow> length d0 | _ \<Rightarrow> length docs0)"
    by (simp add: ds docs0_def)
  have sub: "map (encode ranked_env) (batches 64 docs0) = map Inr sub_embs"
    unfolding docs0_def sub_embs_def by (rule ranked_encode_batches)
  have enough: "length docs0 \<le> length (concat sub_embs)"
    by (simp add: docs0_def sub_embs_def)
  have scored: "sort_reverse score_key (map (\<lambda>i.
             \<lparr>c_text = docs0 ! i,
              c_source = Some (case (ms ! i) ''source'' of None \<Rightarrow> ''Unknown'' | Some s \<Rightarrow> s),
              c_chunk_id = Some (case (ms ! i) ''chunk_id'' of None \<Rightarrow> ''Unknown'' | Some s \<Rightarrow> s),
              c_distance = (case distances ranked_results of
                              Some (d0 # ds) \<Rightarrow> Some (d0 ! i) | _ \<Rightarrow> None),
              c_score = Some (cosine (concat sub_embs ! i) [1, 0])\<rparr>) [0..<length docs0])
          = ranked_chunks"
    by (simp add: ds docs0_def ms_def sub_embs_def demo_cosines ranked_chunks_def
          upt_rec [of 0] upt_rec [of 1] upt_rec [of 2] upt_rec [of 3]
          sort_reverse_def score_key_def)
  from retrieve_sorted_by_exact_score
    [where ev = ranked_env and st = "init_state []" and query = "''q''" and n = 5
       and qe = "[1, 0]" and erest = "[]" and results = ranked_results and docs = docs0
       and drest = "[]" and ms = ms and mrest = "[]" and sub_embs = sub_embs]
  have sorted: "sorted_wrt (\<lambda>a b. score_key b \<le> score_key a)
          (fst (retrieve_relevant_chunks ranked_env (init_state []) ''q'' 5))"
    and body: "snd (retrieve_body ranked_env (collection (init_state [])) ''q'' 5)
                 = Inr (fst (retrieve_relevant_chunks ranked_env (init_state []) ''q'' 5))"
    and out: "fst (retrieve_relevant_chunks ranked_env (init_state []) ''q'' 5) = ranked_chunks"
    using enc idx docs metas len dists sub enough unfolding scored by blast+
  have "map c_distance ranked_chunks = [Some (1 / 2), Some (1 / 4), Some (3 / 4)]"
    and "map c_score ranked_chunks = [Some 1, Some 0, Some 0]"
    by (simp_all add: ranked_chunks_def)
  then show ?thesis
    using enc idx docs metas ds sub sorted body out
    by (simp add: docs0_def ms_def sub_embs_def)
qed

section \<open>Defaults for missing metadata and distances\<close>

lemma demo_encode_batches:
  "map (encode demo_env) (batches 64 [''alpha'', ''beta'', ''gamma''])
     = map Inr [[[0, 1], [1, 0], [0, 1]]]"
  by (simp add: batches_single demo_env_def demo_embed_def)

text \<open>
  Claim C10, as the code has it. When the index answers with documents \<open>docs\<close> and one metadata
  dictionary per document (and one distance per document if it supplies distances), the
  loop that builds the candidates raises nothing and builds one candidate per document:
  it carries the metadata's \<open>source\<close> and \<open>chunk_id\<close>, or the string
  \<open>Unknown\<close> where the dictionary lacks the field, and its approximate distance
  is \<open>None\<close> when the answer has no (or an empty) distances array. When moreover
  the embedding model embeds the query and the documents, retrieval succeeds and returns
  exactly these candidates, none dropped, each with the same fields (and a score).
\<close>

theorem missing_metadata_defaults:
  fixes ev st query n qe erest results docs drest ms mrest sub_embs
  defines "out \<equiv> fst (retrieve_relevant_chunks ev st query n)"
  assumes docs: "documents results = Some (docs # drest)"
    and metas: "metadatas results = Some (map Some ms # mrest)"
    and len: "length docs \<le> length ms"
    and dists: "length docs \<le> (case distances results of
                                  Some (d0 # ds) \<Rightarrow> length d0 | _ \<Rightarrow> length docs)"
  shows "format_results results =
           ret (map (\<lambda>i.
             \<lparr>c_text = docs ! i,
              c_source = Some (case (ms ! i) ''source'' of None \<Rightarrow> ''Unknown'' | Some s \<Rightarrow> s),
              c_chunk_id = Some (case (ms ! i) ''chunk_id'' of None \<Rightarrow> ''Unknown'' | Some s \<Rightarrow> s),
              c_distance = (case distances results of
                              Some (d0 # ds) \<Rightarrow> Some (d0 ! i) | _ \<Rightarrow> None),
              c_score = None\<rparr>) [0..<length docs])
         \<and> (encode ev [query] = Inr (qe # erest)
              \<and> index_query ev (collection st) qe n = Inr results
              \<and> map (encode ev) (batches 64 docs) = map Inr sub_embs
              \<and> length docs \<le> length (concat sub_embs)
            \<longrightarrow> snd (retrieve_body ev (collection st) query n) = Inr out
                \<and> length out = length docs
                \<and> (\<forall>i<length docs. \<exists>c \<in> set out.
                      c_text c = docs ! i
                      \<and> c_source c =
                          Some (case (ms ! i) ''source'' of None \<Rightarrow> ''Unknown'' | Some s \<Rightarrow> s)
                      \<and> c_chunk_id c =
                          Some (case (ms ! i) ''chunk_id'' of None \<Rightarrow> ''Unknown'' | Some s \<Rightarrow> s)
                      \<and> c_distance c = (case distances results of
                                          Some (d0 # ds) \<Rightarrow> Some (d0 ! i) | _ \<Rightarrow> None))
                \<and> (\<forall>c \<in> set out. \<exists>i<length docs.
                      c_text c = docs ! i
                      \<and> c_source c =
                          Some (case (ms ! i) ''source'' of None \<Rightarrow> ''Unknown'' | Some s \<Rightarrow> s)
                      \<and> c_chunk_id c =
                          Some (case (ms ! i) ''chunk_id'' of None \<Rightarrow> ''Unknown'' | Some s \<Rightarrow> s)
                      \<and> c_distance c = (case distances results of
                                          Some (d0 # ds) \<Rightarrow> Some (d0 ! i) | _ \<Rightarrow> None)))"
proof -
  define dist where "dist = (\<lambda>i. case distances results of
                                Some (d0 # ds) \<Rightarrow> Some (d0 ! i) | _ \<Rightarrow> None)"
  define src where
    "src = (\<lambda>i. Some (case (ms ! i) ''source'' of None \<Rightarrow> ''Unknown'' | Some s \<Rightarrow> s))"
  define cid where
    "cid = (\<lambda>i. Some (case (ms ! i) ''chunk_id'' of None \<Rightarrow> ''Unknown'' | Some s \<Rightarrow> s))"
  have dists': "\<forall>d0 ds. distances results = Some (d0 # ds) \<longrightarrow> length docs \<le> length d0"
    using dists by auto
  have fmt: "format_results results =
           ret (map (\<lambda>i. \<lparr>c_text = docs ! i, c_source = src i, c_chunk_id = cid i,
                           c_distance = dist i, c_score = None\<rparr>) [0..<length docs])"
    using format_results_ok [OF docs metas len dists'] by (simp add: src_def cid_def dist_def)
  have full: "snd (retrieve_body ev (collection st) query n) = Inr out
                \<and> length out = length docs
                \<and> (\<forall>i<length docs. \<exists>c \<in> set out.
                      c_text c = docs ! i \<and> c_source c = src i
                      \<and> c_chunk_id c = cid i \<and> c_distance c = dist i)
                \<and> (\<forall>c \<in> set out. \<exists>i<length docs.
                      c_text c = docs ! i \<and> c_source c = src i
                      \<and> c_chunk_id c = cid i \<and> c_distance c = dist i)"
    if enc: "encode ev [query] = Inr (qe # erest)"
      and idx: "index_query ev (collection st) qe n = Inr results"
      and sub: "map (encode ev) (batches 64 docs) = map Inr sub_embs"
      and enough: "length docs \<le> length (concat sub_embs)"
  proof -
    define scored where "scored = map (\<lambda>i.
             \<lparr>c_text = docs ! i, c_source = src i, c_chunk_id = cid i, c_distance = dist i,
              c_score = Some (cosine (concat sub_embs ! i) qe)\<rparr>) [0..<length docs]"
    from retrieve_relevant_chunks_ok [OF enc idx docs metas len dists sub enough]
    have body: "snd (retrieve_body ev (collection st) query n) = Inr (sort_reverse score_key scored)"
      by (simp add: scored_def src_def cid_def dist_def)
    then have o: "out = sort_reverse score_key scored"
      by (simp add: out_def retrieve_relevant_chunks_eq)
    have ls: "length scored = length docs"
      by (simp add: scored_def)
    have so: "set out = set scored" and lo: "length out = length docs"
      by (simp_all add: o ls)
    have fields: "c_text (scored ! i) = docs ! i \<and> c_source (scored ! i) = src i
                  \<and> c_chunk_id (scored ! i) = cid i \<and> c_distance (scored ! i) = dist i"
      if "i < length docs" for i
      using that by (simp add: scored_def)
    have a: "\<exists>c \<in> set out. c_text c = docs ! i \<and> c_source c = src i
                      \<and> c_chunk_id c = cid i \<and> c_distance c = dist i"
      if "i < length docs" for i
      using fields [OF that] that ls so by (intro bexI [of _ "scored ! i"]) simp_all
    have b: "\<exists>i<length docs. c_text c = docs ! i \<and> c_source c = src i
                      \<and> c_chunk_id c = cid i \<and> c_distance c = dist i"
      if "c \<in> set out" for c
    proof -
      from that so obtain i where "i < length scored" "c = scored ! i"
        by (auto simp: in_set_conv_nth)
      then show ?thesis using fields [of i] ls by auto
    qed
    show ?thesis using body o lo a b by blast
  qed
  show ?thesis
    using fmt full unfolding src_def cid_def dist_def by blast
qed

theorem missing_metadata_defaults_witness:
  "documents demo_results = Some ([''alpha'', ''beta'', ''gamma''] # [])
   \<and> metadatas demo_results =
        Some (map Some [[''source'' \<mapsto> ''neph.pdf'', ''chunk_id'' \<mapsto> ''0''],
                         Map.empty, [''chunk_id'' \<mapsto> ''2'']] # [])
   \<and> distances demo_results = None
   \<and> encode demo_env [''q''] = Inr ([1, 0] # [])
   \<and> index_query demo_env (collection (init_state [])) [1, 0] 5 = Inr demo_results
   \<and> map (encode demo_env) (batches 64 [''alpha'', ''beta'', ''gamma''])
        = map Inr [[[0, 1], [1, 0], [0, 1]]]
   \<and> format_results demo_results = ret demo_candidates
   \<and> snd (retrieve_body demo_env (collection (init_state [])) ''q'' 5)
        = Inr (fst (retrieve_relevant_chunks demo_env (init_state []) ''q'' 5))
   \<and> length (fst (retrieve_relevant_chunks demo_env (init_state []) ''q'' 5)) = 3
   \<and> (\<exists>c \<in> set (fst (retrieve_relevant_chunks demo_env (init_state []) ''q'' 5)).
          c_text c = ''beta'' \<and> c_source c = Some ''Unknown''
          \<and> c_chunk_id c = Some ''Unknown'' \<and> c_distance c = None)
   \<and> (\<exists>c \<in> set (fst (retrieve_relevant_chunks demo_env (init_state []) ''q'' 5)).
          c_text c = ''gamma'' \<and> c_source c = Some ''Unknown''
          \<and> c_chunk_id c = Some ''2'' \<and> c_distance c = None)"
proof -
  define ms :: "metadata list" where
    "ms = [[''source'' \<mapsto> ''neph.pdf'', ''chunk_id'' \<mapsto> ''0''],
           Map.empty, [''chunk_id'' \<mapsto> ''2'']]"
  define docs0 where "docs0 = [''alpha'', ''beta'', ''gamma'']"
  define sub_embs :: "vec list list" where "sub_embs = [[[0, 1], [1, 0], [0, 1]]]"
  define out where "out = fst (retrieve_relevant_chunks demo_env (init_state []) ''q'' 5)"
  have enc: "encode demo_env [''q''] = Inr ([1, 0] # [])"
    by (rule demo_encode_query)
  have idx: "index_query demo_env (collection (init_state [])) [1, 0] 5 = Inr demo_results"
    by (rule demo_index_query)
  have docs: "documents demo_results = Some (docs0 # [])"
    by (simp add: demo_results_def docs0_def)
  have metas: "metadatas demo_results = Some (map Some ms # [])"
    by (simp add: demo_results_def ms_def)
  have len: "length docs0 \<le> length ms"
    by (simp add: docs0_def ms_def)
  have none: "distances demo_results = None"
    by (simp add: demo_results_def)
  have dists: "length docs0 \<le> (case distances demo_results of
                                   Some (d0 # ds) \<Rightarrow> length d0 | _ \<Rightarrow> length docs0)"
    by (simp add: none)
  have sub: "map (encode demo_env) (batches 64 docs0) = map Inr sub_embs"
    unfolding docs0_def sub_embs_def by (rule demo_encode_batches)
  have enough: "length docs0 \<le> length (concat sub_embs)"
    by (simp add: docs0_def sub_embs_def)
  note inst = missing_metadata_defaults [OF docs metas len dists,
      where ev = demo_env and st = "init_state []" and query = "''q''" and n = 5
        and qe = "[1, 0]" and erest = "[]" and sub_embs = sub_embs,
      folded out_def]
  define P where "P = (\<lambda>i (c::chunk_info). c_text c = docs0 ! i
               \<and> c_source c =
                   Some (case (ms ! i) ''source'' of None \<Rightarrow> ''Unknown'' | Some s \<Rightarrow> s)
               \<and> c_chunk_id c =
                   Some (case (ms ! i) ''chunk_id'' of None \<Rightarrow> ''Unknown'' | Some s \<Rightarrow> s)
               \<and> c_distance c = (case distances demo_results of
                                   Some (d0 # ds) \<Rightarrow> Some (d0 ! i) | _ \<Rightarrow> None))"
  have fmt: "format_results demo_results = ret demo_candidates"
    using inst
    by (simp add: none docs0_def ms_def demo_candidates_def
          upt_rec [of 0] upt_rec [of 1] upt_rec [of 2] upt_rec [of 3])
  have body: "snd (retrieve_body demo_env (collection (init_state [])) ''q'' 5) = Inr out"
    and l0: "length out = length docs0"
    and every: "\<forall>i<length docs0. \<exists>c \<in> set out. P i c"
    using inst enc idx sub enough unfolding P_def by blast+
  have l: "length out = 3"
    using l0 by (simp add: docs0_def)
  have "\<exists>c \<in> set out. P 1 c"
    using every by (simp add: docs0_def)
  then have b: "\<exists>c \<in> set out.
          c_text c = ''beta'' \<and> c_source c = Some ''Unknown''
          \<and> c_chunk_id c = Some ''Unknown'' \<and> c_distance c = None"
    using none by (simp add: P_def docs0_def ms_def)
  have "\<exists>c \<in> set out. P 2 c"
    using every by (simp add: docs0_def)
  then have g: "\<exists>c \<in> set out.
          c_text c = ''gamma'' \<and> c_source c = Some ''Unknown''
          \<and> c_chunk_id c = Some ''2'' \<and> c_distance c = None"
    using none by (simp add: P_def docs0_def ms_def)
  show ?thesis
    using enc idx docs metas none sub fmt body l b g
    unfolding out_def by (simp add: docs0_def ms_def sub_embs_def)
qed

lemma none_meta_format_results:
  "format_results none_meta_results = ([], Inl PyAttributeError)"
  by (simp add: format_results_def none_meta_results_def make_chunk_info_def py_subscript_def
        py_nth_def upt_rec [of 0] upt_rec [of 1] upt_rec [of 2] ret_def raise_def bind_def)

lemma none_meta_retrieve_body:
  "retrieve_body none_meta_env coll ''q'' 5
     = ([EvEncode [''q''], EvQuery [1, 0] 5], Inl PyAttributeError)"
proof -
  have e: "encode none_meta_env [''q''] = Inr [[1, 0]]"
    by (simp add: none_meta_env_def demo_env_def demo_embed_def)
  have i: "index_query none_meta_env coll [1, 0] 5 = Inr none_meta_results"
    by (simp add: none_meta_env_def)
  show ?thesis
    by (simp add: retrieve_body_def bind_def ext_call_def py_nth_def ret_def e i
          none_meta_format_results)
qed

text \<open>
  Claim C10 as stated fails for an index answer in which one metadata entry is
  \<open>None\<close>: the first candidate's metadata is an empty dictionary, so it lacks
  \<open>source\<close> and \<open>chunk_id\<close>, but \<open>.get\<close> on the second
  candidate's \<open>None\<close> raises \<open>AttributeError\<close>, the handler returns the empty
  list, and the first candidate is dropped with it.
\<close>

theorem none_metadata_drops_candidates:
  "index_query none_meta_env (collection (init_state [])) [1, 0] 5 = Inr none_meta_results
   \<and> documents none_meta_results = Some [[''alpha'', ''beta'']]
   \<and> metadatas none_meta_results = Some [[Some Map.empty, None]]
   \<and> snd (retrieve_body none_meta_env (collection (init_state [])) ''q'' 5)
        = Inl PyAttributeError
   \<and> fst (retrieve_relevant_chunks none_meta_env (init_state []) ''q'' 5) = []"
  by (simp add: none_meta_retrieve_body retrieve_relevant_chunks_eq)
     (simp add: none_meta_env_def none_meta_results_def)

section \<open>Ingestion of the demonstration PDF\<close>

lemma string_of_nat_digits:
  "string_of_nat 0 = ''0''" "string_of_nat (Suc 0) = ''1''" "string_of_nat 3 = ''3''"
proof -
  show "string_of_nat 0 = ''0''"
    by (simp add: string_of_nat.simps [of 0])
  show "string_of_nat (Suc 0) = ''1''"
    by (simp add: string_of_nat.simps [of "Suc 0"])
  have "''0123456789'' ! 3 = CHR ''3''"
    by (simp add: eval_nat_numeral)
  then show "string_of_nat 3 = ''3''"
    by (simp add: string_of_nat.simps [of 3])
qed

lemma string_of_nat_Suc3: "string_of_nat (Suc (Suc (Suc 0))) = ''3''"
  using string_of_nat_digits(3) by (simp add: numeral_3_eq_3)

lemma demo_extract: "extract_text_from_pdf demo_env = ([EvExtract], Inr demo_text)"
  by (simp add: extract_text_from_pdf_def demo_env_def ext_call_def bind_def ret_def
        page_texts_def upt_rec [of 1] upt_rec [of 2] upt_rec [of 3] upt_rec [of 4]
        string_of_nat_digits string_of_nat_Suc3 demo_text_def)

lemma demo_basename: "basename (pdf_path demo_env) = ''comprehensive-clinical-nephrology.pdf''"
  by (simp add: basename_def demo_env_def)

lemma demo_chunk_text:
  "chunk_text demo_env demo_text =
     ([EvSplit demo_text],
      Inr [\<lparr>d_text = demo_text, d_chunk_id = 0,
            d_source = ''comprehensive-clinical-nephrology.pdf''\<rparr>])"
  by (simp add: chunk_text_def demo_basename ext_call_def bind_def ret_def)
     (simp add: demo_env_def)

lemma demo_embed_text: "demo_embed demo_text = [0, 1]"
  by (simp add: demo_embed_def demo_text_def)

lemma demo_chunk_items:
  "chunk_items [\<lparr>d_text = demo_text, d_chunk_id = 0,
                   d_source = ''comprehensive-clinical-nephrology.pdf''\<rparr>] [[0, 1]]
     = [demo_item]"
  by (simp add: chunk_items_def demo_item_def string_of_nat_digits)

lemma demo_text_nonempty: "demo_text \<noteq> []"
  by (simp add: demo_text_def)

lemma demo_add_batches:
  "add_batches demo_env st
     [[\<lparr>d_text = demo_text, d_chunk_id = 0,
         d_source = ''comprehensive-clinical-nephrology.pdf''\<rparr>]]
     = (Inr (), st\<lparr>calls := calls st @ [EvEncode [demo_text], EvAdd [demo_item]],
                     collection := collection st @ [demo_item]\<rparr>)"
proof -
  have e: "encode demo_env [demo_text] = Inr [[0, 1]]"
    by (simp add: demo_env_def demo_embed_text)
  have a: "index_add demo_env coll items = Inr (coll @ items)" for coll items
    by (simp add: demo_env_def)
  show ?thesis
    by (simp add: batches_single e a ext_call_def bind_def ret_def demo_chunk_items Let_def)
qed

lemma demo_first_ingestion:
  "process_pdf demo_env (init_state []) = (Inr PyNone, ingested_state)"
proof -
  have x: "bind (extract_text_from_pdf demo_env) (chunk_text demo_env)
             = ([EvExtract, EvSplit demo_text],
                Inr [\<lparr>d_text = demo_text, d_chunk_id = 0,
                      d_source = ''comprehensive-clinical-nephrology.pdf''\<rparr>])"
    by (simp add: demo_extract demo_chunk_text bind_Inr)
  show ?thesis
    unfolding process_pdf_def x
    by (simp add: init_state_def batches_single demo_add_batches ingested_state_def Let_def
          del: add_batches.simps)
qed

lemma process_pdf_skip:
  "collection st \<noteq> [] \<Longrightarrow>
   process_pdf ev st = (Inr PyNone, st\<lparr>calls := calls st @ [EvCount]\<rparr>)"
  by (simp add: process_pdf_def)

section \<open>Ingestion into a populated collection\<close>

text \<open>
  Claim C5, amended. Whenever the collection already reports a non-zero item count,
  \<open>process_pdf\<close> asks for the count and does nothing else: no text extraction,
  chunking, embedding or \<open>add\<close> call is made, the collection and the context cache
  are unchanged, and the call returns \<open>None\<close> (not a count). Calling it again
  gives the same result and leaves the same collection.
\<close>

theorem process_pdf_skips_populated:
  assumes "0 < length (collection st)"
  shows "fst (process_pdf ev st) = Inr PyNone
         \<and> snd (process_pdf ev st) = st\<lparr>calls := calls st @ [EvCount]\<rparr>
         \<and> collection (snd (process_pdf ev st)) = collection st
         \<and> query_cache (snd (process_pdf ev st)) = query_cache st
         \<and> calls (snd (process_pdf ev st)) = calls st @ [EvCount]
         \<and> fst (process_pdf ev (snd (process_pdf ev st))) = Inr PyNone
         \<and> collection (snd (process_pdf ev (snd (process_pdf ev st)))) = collection st"
proof -
  from assms have ne: "collection st \<noteq> []" by auto
  have one: "process_pdf ev st = (Inr PyNone, st\<lparr>calls := calls st @ [EvCount]\<rparr>)"
    using ne by (rule process_pdf_skip)
  have "collection (st\<lparr>calls := calls st @ [EvCount]\<rparr>) \<noteq> []"
    using ne by simp
  from process_pdf_skip [OF this, of ev] one show ?thesis
    by simp
qed

theorem process_pdf_skips_populated_witness:
  "process_pdf demo_env (init_state []) = (Inr PyNone, ingested_state)
   \<and> collection ingested_state = [demo_item]
   \<and> 0 < length (collection ingested_state)
   \<and> fst (process_pdf demo_env ingested_state) = Inr PyNone
   \<and> collection (snd (process_pdf demo_env ingested_state)) = [demo_item]
   \<and> calls (snd (process_pdf demo_env ingested_state)) = calls ingested_state @ [EvCount]"
proof -
  have c: "collection ingested_state = [demo_item]"
    by (simp add: ingested_state_def)
  then have pos: "0 < length (collection ingested_state)"
    by simp
  from process_pdf_skips_populated [OF pos, of demo_env] c demo_first_ingestion pos
  show ?thesis
    by simp
qed

text \<open>
  Claim C5 as stated fails in its last clause: the second ingestion of the demonstration
  PDF returns \<open>None\<close>, which is not the integer 0.
\<close>

theorem process_pdf_returns_none_not_zero:
  "fst (process_pdf demo_env ingested_state) = Inr PyNone
   \<and> fst (process_pdf demo_env ingested_state) \<noteq> Inr (PyInt 0)"
  by (simp add: process_pdf_skip ingested_state_def)

section \<open>The cosine in exact arithmetic\<close>

text \<open>
  The scores of the retriever are modelled as real numbers. In exact arithmetic the
  function \<open>cosine\<close> is symmetric, is 0 when a vector has norm 0, and lies between
  \<open>-1\<close> and 1, also when the vectors differ in length (\<open>zip\<close> truncates the
  dot product only). These facts say nothing about the rounding of the program's
  double-precision arithmetic.
\<close>

lemma dot_commute:
  "sum_list (map (\<lambda>(x, y). x * y) (zip a b)) = sum_list (map (\<lambda>(x, y). x * y) (zip b a))"
  for a b :: "real list"
proof (induction a arbitrary: b)
  case Nil
  then show ?case by simp
next
  case (Cons x a)
  then show ?case by (cases b) (simp_all add: mult.commute)
qed

lemma sum_squares_nonneg: "0 \<le> sum_list (map (\<lambda>x. x * x) a)" for a :: "real list"
  by (induction a) simp_all

lemma dot_cauchy_schwarz:
  "(sum_list (map (\<lambda>(x, y). x * y) (zip a b)))\<^sup>2
     \<le> sum_list (map (\<lambda>x. x * x) a) * sum_list (map (\<lambda>y. y * y) b)"
  for a b :: "real list"
proof (induction a arbitrary: b)
  case Nil
  then show ?case by simp
next
  case (Cons x a)
  show ?case
  proof (cases b)
    case Nil
    then show ?thesis by simp
  next
    case (Cons y b')
    define D where "D = sum_list (map (\<lambda>(x, y). x * y) (zip a b'))"
    define A where "A = sum_list (map (\<lambda>x. x * x) a)"
    define B where "B = sum_list (map (\<lambda>y. y * y) b')"
    have A: "0 \<le> A" and B: "0 \<le> B"
      unfolding A_def B_def by (rule sum_squares_nonneg)+
    have ih: "D\<^sup>2 \<le> A * B"
      unfolding D_def A_def B_def by (rule Cons.IH)
    have "\<bar>D\<bar> \<le> sqrt (A * B)"
      using ih by (simp add: real_le_rsqrt)
    then have d: "\<bar>D\<bar> \<le> sqrt A * sqrt B"
      by (simp add: real_sqrt_mult)
    define u where "u = \<bar>x\<bar> * sqrt B"
    define v where "v = \<bar>y\<bar> * sqrt A"
    have "0 \<le> (u - v)\<^sup>2" by simp
    then have "2 * u * v \<le> u\<^sup>2 + v\<^sup>2"
      by (simp add: power2_diff)
    moreover have "u\<^sup>2 = x * x * B" "v\<^sup>2 = y * y * A"
    proof -
      have "\<bar>x\<bar>\<^sup>2 = x * x" "\<bar>y\<bar>\<^sup>2 = y * y"
        by (simp_all add: power2_eq_square)
      moreover have "(sqrt A)\<^sup>2 = A" "(sqrt B)\<^sup>2 = B"
        using A B by simp_all
      ultimately show "u\<^sup>2 = x * x * B" "v\<^sup>2 = y * y * A"
        by (simp_all add: u_def v_def power_mult_distrib)
    qed
    ultimately have uv: "2 * u * v \<le> x * x * B + y * y * A"
      by simp
    have "2 * (x * y) * D \<le> 2 * \<bar>x * y\<bar> * \<bar>D\<bar>"
      by (metis abs_ge_self abs_mult abs_numeral)
    also have "\<dots> \<le> 2 * \<bar>x * y\<bar> * (sqrt A * sqrt B)"
      using d by (intro mult_left_mono) simp_all
    also have "\<dots> = 2 * u * v"
      by (simp add: u_def v_def abs_mult)
    finally have cross: "2 * (x * y) * D \<le> x * x * B + y * y * A"
      using uv by simp
    have "(x * y + D)\<^sup>2 = (x * y)\<^sup>2 + 2 * (x * y) * D + D\<^sup>2"
      by (simp add: power2_sum)
    also have "\<dots> \<le> (x * y)\<^sup>2 + (x * x * B + y * y * A) + A * B"
      using cross ih by simp
    also have "\<dots> = (x * x + A) * (y * y + B)"
      by (simp add: algebra_simps power2_eq_square)
    finally show ?thesis
      using Cons by (simp add: D_def A_def B_def)
  qed
qed

lemma cosine_commute: "cosine a b = cosine b a"
  by (simp add: cosine_def Let_def dot_commute [of a b] mult.commute disj_commute)

lemma cosine_zero_norm:
  "sum_list (map (\<lambda>x. x * x) a) = 0 \<or> sum_list (map (\<lambda>y. y * y) b) = 0 \<Longrightarrow> cosine a b = 0"
  by (auto simp: cosine_def Let_def)

lemma cosine_bounded: "\<bar>cosine a b\<bar> \<le> 1"
proof -
  define D where "D = sum_list (map (\<lambda>(x, y). x * y) (zip a b))"
  define A where "A = sum_list (map (\<lambda>x. x * x) a)"
  define B where "B = sum_list (map (\<lambda>y. y * y) b)"
  have A: "0 \<le> A" and B: "0 \<le> B"
    unfolding A_def B_def by (rule sum_squares_nonneg)+
  have "D\<^sup>2 \<le> A * B"
    unfolding D_def A_def B_def by (rule dot_cauchy_schwarz)
  then have "\<bar>D\<bar> \<le> sqrt (A * B)"
    by (simp add: real_le_rsqrt)
  then have d: "\<bar>D\<bar> \<le> sqrt A * sqrt B"
    by (simp add: real_sqrt_mult)
  show ?thesis
  proof (cases "sqrt A = 0 \<or> sqrt B = 0")
    case True
    then show ?thesis by (simp add: cosine_def Let_def A_def B_def)
  next
    case False
    then have pos: "0 < sqrt A * sqrt B"
      using A B by (simp add: less_le)
    have "cosine a b = D / (sqrt A * sqrt B)"
      using False by (simp add: cosine_def Let_def A_def B_def D_def)
    then show ?thesis
      using d pos by simp
  qed
qed

end
